theory Spec2Isabelle
  imports Complex_Main
begin

section \<open>Strings\<close>

text \<open>
  Paths, arguments, messages and the texts that the program writes are modelled as
  \<^typ>\<open>string\<close>. The output of the version query, which the Java check searches, is any
  JavaScript string: a list of UTF-16 code units, each a number. The character classes
  below are the ECMAScript ones on code units.
\<close>

type_synonym path = string

type_synonym code_unit = nat

type_synonym js_string = "code_unit list"

definition ascii :: "string \<Rightarrow> js_string" where
  \<comment> \<open>the code units of a literal\<close>
  "ascii s = map of_char s"

definition dquote :: char where
  "dquote = CHR 0x22"

definition newline :: char where
  "newline = CHR 0x0A"

definition js_space :: "code_unit \<Rightarrow> bool" where
  \<comment> \<open>the class \<open>\s\<close> of a regular expression, and what \<open>trim\<close> strips: the white space
      and the line terminators of ECMAScript (tab, line feed, vertical tab, form feed,
      carriage return, space, no-break space, U+1680, U+2000 to U+200A, U+2028, U+2029,
      U+202F, U+205F, U+3000, U+FEFF)\<close>
  "js_space c =
     (c \<in> set [0x09, 0x0A, 0x0B, 0x0C, 0x0D, 0x20, 0xA0, 0x1680, 0x2028, 0x2029, 0x202F, 0x205F,
               0x3000, 0xFEFF] \<or> (0x2000 \<le> c \<and> c \<le> 0x200A))"

definition js_digit :: "code_unit \<Rightarrow> bool" where
  \<comment> \<open>the class \<open>\d\<close>: \<open>0\<close> to \<open>9\<close>\<close>
  "js_digit c = (0x30 \<le> c \<and> c \<le> 0x39)"

definition toLowerCase :: "code_unit \<Rightarrow> code_unit" where
  \<comment> \<open>what the flag \<open>i\<close> identifies with the letters of \<open>version\<close>: \<open>A\<close> to \<open>Z\<close> with
      \<open>a\<close> to \<open>z\<close>. Without the flag \<open>u\<close> no code unit beyond ASCII is identified with
      an ASCII letter.\<close>
  "toLowerCase c = (if 0x41 \<le> c \<and> c \<le> 0x5A then c + 0x20 else c)"

definition trim :: "js_string \<Rightarrow> js_string" where
  "trim s = rev (dropWhile js_space (rev (dropWhile js_space s)))"

fun split_js :: "char \<Rightarrow> string \<Rightarrow> string list" where
  \<comment> \<open>\<open>s.split(sep)\<close> for a separator of one character\<close>
  "split_js sep [] = [[]]"
| "split_js sep (c # cs) =
     (if c = sep then [] # split_js sep cs
      else (case split_js sep cs of
              [] \<Rightarrow> [[c]]
            | w # ws \<Rightarrow> (c # w) # ws))"

fun join_js :: "string \<Rightarrow> string list \<Rightarrow> string" where
  \<comment> \<open>\<open>xs.join(sep)\<close>\<close>
  "join_js sep [] = []"
| "join_js sep [x] = x"
| "join_js sep (x # y # ys) = x @ sep @ join_js sep (y # ys)"

definition endsWith :: "string \<Rightarrow> string \<Rightarrow> bool" where
  "endsWith s suffix = (length suffix \<le> length s \<and> drop (length s - length suffix) s = suffix)"

definition Number_js :: "js_string \<Rightarrow> nat" where
  \<comment> \<open>\<open>Number(ds)\<close> on a string of decimal digits: the number it denotes. The source
      compares the result with 25 only, and rounding to a double never moves a natural
      number across 25.\<close>
  "Number_js ds = foldl (\<lambda>n c. 10 * n + (c - 0x30)) 0 ds"

function show_nat :: "nat \<Rightarrow> string" where
  \<comment> \<open>the decimal numeral of an array index\<close>
  "show_nat n =
     (if n < 10 then [''0123456789'' ! n]
      else show_nat (n div 10) @ [''0123456789'' ! (n mod 10)])"
  by pat_completeness auto
termination
  by (relation "measure id") auto

subsection \<open>The regular expression of the Java check\<close>

definition match_here :: "js_string \<Rightarrow> js_string option" where
  \<comment> \<open>\<open>/version\s+"(\d+)/i\<close> anchored at the head of the string: the capture group;
      \<open>0x22\<close> is the double quote\<close>
  "match_here s =
     (if map toLowerCase (take 7 s) = ascii ''version'' then
        (let r = drop 7 s
         in if takeWhile js_space r = [] then None
            else (case dropWhile js_space r of
                    [] \<Rightarrow> None
                  | q # r' \<Rightarrow>
                      if q = 0x22 \<and> takeWhile js_digit r' \<noteq> []
                      then Some (takeWhile js_digit r') else None))
      else None)"

fun match_version :: "js_string \<Rightarrow> js_string option" where
  \<comment> \<open>\<open>out.match(/version\s+"(\d+)/i)\<close>: the leftmost match; \<open>None\<close> is \<open>null\<close>,
      \<open>Some ds\<close> is \<open>match[1]\<close>\<close>
  "match_version [] = None"
| "match_version (c # cs) =
     (case match_here (c # cs) of
        Some ds \<Rightarrow> Some ds
      | None \<Rightarrow> match_version cs)"

definition version_at :: "js_string \<Rightarrow> js_string \<Rightarrow> bool" where
  \<comment> \<open>The pattern of the specification, \<open>version "<digits>\<close>, as a property of strings, to
      compare \<open>match_here\<close> with: the string begins with the word \<open>version\<close>, each letter
      in either case, then at least one white-space character, then a double quote, and
      \<open>ds\<close> is the longest run of digits after the quote, which is not empty.\<close>
  "version_at s ds \<longleftrightarrow>
     (\<exists>v w post.
        s = v @ w @ [0x22] @ ds @ post \<and>
        list_all2 (\<lambda>c l. c = l \<or> c + 0x20 = l) v (ascii ''version'') \<and>
        w \<noteq> [] \<and> (\<forall>c \<in> set w. js_space c) \<and>
        ds \<noteq> [] \<and> (\<forall>c \<in> set ds. js_digit c) \<and>
        (post = [] \<or> \<not> js_digit (hd post)))"

section \<open>Values, errors and effects\<close>

datatype json =
    JNull
  | JBool bool
  | JNum rat
  | JString string
  | JArray "json list"
  | JObject "(string \<times> json) list"

type_synonym jsobject = "string \<rightharpoonup> json"

fun truthy :: "json option \<Rightarrow> bool" where
  \<comment> \<open>what \<open>if (v)\<close> tests; \<open>None\<close> is \<open>undefined\<close>\<close>
  "truthy None = False"
| "truthy (Some JNull) = False"
| "truthy (Some (JBool b)) = b"
| "truthy (Some (JNum x)) = (x \<noteq> 0)"
| "truthy (Some (JString s)) = (s \<noteq> [])"
| "truthy (Some (JArray xs)) = True"
| "truthy (Some (JObject kvs)) = True"

fun ownProps :: "json \<Rightarrow> jsobject" where
  \<comment> \<open>the own enumerable properties that the spread \<open>{...v}\<close> copies\<close>
  "ownProps (JObject kvs) = map_of (rev kvs)"
| "ownProps (JArray xs) = map_of (zip (map show_nat [0..<length xs]) xs)"
| "ownProps (JString s) = map_of (zip (map show_nat [0..<length s]) (map (\<lambda>c. JString [c]) s))"
| "ownProps v = Map.empty"

datatype js_error =
    UnsupportedOS string           \<comment> \<open>\<open>Unsupported OS: ${platform}\<close>\<close>
  | JavaNotAccessible              \<comment> \<open>\<open>Java not installed or not accessible\<close>\<close>
  | CannotParseJavaVersion         \<comment> \<open>\<open>Cannot parse Java version\<close>\<close>
  | JavaTooOld nat                 \<comment> \<open>\<open>Java ${version} was detected but 25+ is required\<close>\<close>
  | DownloadFailed int             \<comment> \<open>\<open>Download failed: ${res.statusCode}\<close>\<close>
  | TerminatedBySignal string      \<comment> \<open>\<open>Downloader terminated by signal ${signal}\<close>\<close>
  | ExitedWithCode "int option"    \<comment> \<open>\<open>Downloader exited with code ${code}\<close>\<close>
  | NoZipFound                     \<comment> \<open>\<open>No downloaded ZIP found\<close>\<close>
  | TypeError string               \<comment> \<open>a method called on a value that has none\<close>
  | SysError string                \<comment> \<open>an error of a Node built-in, with its message\<close>

fun message :: "js_error \<Rightarrow> string" where
  \<comment> \<open>\<open>err.message\<close>, for the errors whose text is fixed by the source\<close>
  "message (UnsupportedOS p) = ''Unsupported OS: '' @ p"
| "message JavaNotAccessible = ''Java not installed or not accessible''"
| "message CannotParseJavaVersion = ''Cannot parse Java version''"
| "message (JavaTooOld v) = ''Java '' @ show_nat v @ '' was detected but 25+ is required''"
    \<comment> \<open>thrown for \<open>v < 25\<close> only, where the text of the number is its decimal numeral\<close>
| "message (TerminatedBySignal s) = ''Downloader terminated by signal '' @ s"
| "message NoZipFound = ''No downloaded ZIP found''"
| "message (TypeError m) = m"
| "message (SysError m) = m"
| "message (DownloadFailed c) =
     ''Download failed: '' @ (if c < 0 then ''-'' else []) @ show_nat (nat \<bar>c\<bar>)"
| "message (ExitedWithCode c) =
     ''Downloader exited with code '' @
       (case c of None \<Rightarrow> ''null''
        | Some n \<Rightarrow> (if n < 0 then ''-'' else []) @ show_nat (nat \<bar>n\<bar>))"

datatype 'a completion =
    Normal 'a            \<comment> \<open>returned, or the promise resolved\<close>
  | Throw js_error       \<comment> \<open>threw, or the promise rejected\<close>
  | ProcessExit nat      \<comment> \<open>\<open>process.exit(code)\<close>: nothing after it runs\<close>

datatype stream = Stdout | Stderr

datatype event =
    WriteFileSync path string               \<comment> \<open>\<open>fs.writeFileSync(path, data)\<close>\<close>
  | AppendFileSync path string              \<comment> \<open>\<open>fs.appendFileSync(path, data)\<close>\<close>
  | Console stream "string list"            \<comment> \<open>\<open>console.log\<close> / \<open>console.error\<close> with its arguments\<close>
  | Rm path nat nat                         \<comment> \<open>\<open>fs.promises.rm(path, {recursive, force, maxRetries, retryDelay})\<close>\<close>
  | Spawn string "string list" path         \<comment> \<open>\<open>spawn(cmd, args, {stdio: "inherit", cwd})\<close>\<close>
  | Exec string                             \<comment> \<open>\<open>exec(cmd)\<close>\<close>
  | CreateWriteStream path                  \<comment> \<open>\<open>fs.createWriteStream(path)\<close>\<close>
  | HttpsGet string                         \<comment> \<open>\<open>https.get(url)\<close>\<close>
  | Pipe path                               \<comment> \<open>\<open>res.pipe(file)\<close>, the file named by its path\<close>
  | CloseFile path                          \<comment> \<open>\<open>file.close()\<close>\<close>

type_synonym trace = "event list"

datatype child_event =
    ChildError string                       \<comment> \<open>\<open>'error'\<close> of a child process, with the message\<close>
  | ChildExit "int option" "string option"  \<comment> \<open>\<open>'exit'\<close> with \<open>code\<close> and \<open>signal\<close>; \<open>None\<close> is \<open>null\<close>\<close>

datatype net_event =
    RequestError string                     \<comment> \<open>\<open>'error'\<close> of the request, with the message\<close>
  | Response int                            \<comment> \<open>the response arrives, with \<open>res.statusCode\<close>\<close>
  | FileFinish                              \<comment> \<open>\<open>'finish'\<close> of the write stream\<close>

text \<open>
  The effects of the program are recorded in a trace, in the order in which the program
  attempts them. What the operating system and the Node library answer is an input: each
  answer may depend on everything the program has done so far.
\<close>

record env =
  platform :: string                                  \<comment> \<open>\<open>os.platform()\<close>\<close>
  cwd :: path                                         \<comment> \<open>\<open>process.cwd()\<close>\<close>
  pkg :: bool                                         \<comment> \<open>\<open>process.pkg\<close> is set\<close>
  execPath :: path                                    \<comment> \<open>\<open>process.execPath\<close>\<close>
  path_dirname :: "path \<Rightarrow> path"
  path_join :: "path \<Rightarrow> string \<Rightarrow> path"
  path_resolve :: "path \<Rightarrow> string \<Rightarrow> path"
  now :: "trace \<Rightarrow> string"                            \<comment> \<open>\<open>new Date().toISOString()\<close>\<close>
  fs_write_error :: "trace \<Rightarrow> path \<Rightarrow> string option"   \<comment> \<open>the error of a synchronous write, if it fails\<close>
  fs_exists :: "trace \<Rightarrow> path \<Rightarrow> bool"                \<comment> \<open>\<open>fs.existsSync\<close>\<close>
  fs_read :: "trace \<Rightarrow> path \<Rightarrow> string + string"       \<comment> \<open>\<open>fs.readFileSync(path, "utf8")\<close>\<close>
  fs_readdir :: "trace \<Rightarrow> path \<Rightarrow> string + string list" \<comment> \<open>\<open>fs.readdirSync\<close>\<close>
  fs_mtimeMs :: "trace \<Rightarrow> path \<Rightarrow> string + rat"       \<comment> \<open>\<open>fs.statSync(path).mtimeMs\<close>\<close>
  fs_rm_error :: "trace \<Rightarrow> path \<Rightarrow> string option"      \<comment> \<open>the error of \<open>fs.promises.rm\<close>, if it fails\<close>
  JSON_parse :: "string \<Rightarrow> string + json"              \<comment> \<open>\<open>Inl\<close> the message of the SyntaxError\<close>
  Number_toString :: "nat \<Rightarrow> string"
    \<comment> \<open>\<open>${version}\<close>, the text of the double nearest to the number: its decimal numeral
        up to \<open>2^53\<close>, a rounded one beyond, with an exponent from \<open>10^21\<close> on\<close>
  exec_result :: "trace \<Rightarrow> string \<Rightarrow> string option \<times> js_string \<times> js_string"
                                                      \<comment> \<open>\<open>(err, stdout, stderr)\<close> given to the callback of \<open>exec\<close>\<close>
  spawn_events :: "trace \<Rightarrow> child_event list"         \<comment> \<open>what the spawned child emits, in order\<close>
  https_events :: "trace \<Rightarrow> net_event list"           \<comment> \<open>what the request and the file emit, in order\<close>

section \<open>Runtime paths\<close>

definition RUNTIME_DIR :: "env \<Rightarrow> path" where
  "RUNTIME_DIR e = (if pkg e then path_dirname e (execPath e) else cwd e)"

definition LOG_FILE :: "env \<Rightarrow> path" where
  "LOG_FILE e = path_join e (RUNTIME_DIR e) ''installer.log''"

definition CONFIG_FILE :: "env \<Rightarrow> path" where
  "CONFIG_FILE e = path_join e (RUNTIME_DIR e) ''installer-config.json''"

definition DOWNLOAD_URL :: string where
  "DOWNLOAD_URL = ''https://downloader.hytale.com/hytale-downloader.zip''"

definition DOWNLOADER_ZIP :: "env \<Rightarrow> path" where
  "DOWNLOADER_ZIP e = path_join e (RUNTIME_DIR e) ''hytale-downloader.zip''"

definition EXTRACT_DIR :: "env \<Rightarrow> path" where
  "EXTRACT_DIR e = path_join e (RUNTIME_DIR e) ''hytale-downloader''"

definition DOWNLOADER_EXE :: "string \<Rightarrow> string option" where
  \<comment> \<open>\<open>None\<close> is \<open>null\<close>\<close>
  "DOWNLOADER_EXE p =
     (if p = ''win32'' then Some ''hytale-downloader-windows-amd64.exe''
      else if p = ''linux'' then Some ''hytale-downloader-linux-amd64''
      else None)"

section \<open>Logging\<close>

definition writeLog :: "env \<Rightarrow> string \<Rightarrow> string \<Rightarrow> trace \<Rightarrow> trace" where
  "writeLog e level msg tr =
     (let line = ''['' @ now e tr @ ''] ['' @ level @ ''] '' @ msg @ [newline];
          tr1 = tr @ [AppendFileSync (LOG_FILE e) line];
          tr2 = (case fs_write_error e tr (LOG_FILE e) of
                   None \<Rightarrow> tr1
                 | Some err \<Rightarrow> tr1 @ [Console Stderr [''Failed to write log:'', err]])
      in tr2 @ [Console (if level = ''ERROR'' then Stderr else Stdout) [msg]])"

definition log_info :: "env \<Rightarrow> string \<Rightarrow> trace \<Rightarrow> trace" where
  \<comment> \<open>\<open>log\<close> in the source\<close>
  "log_info e msg = writeLog e ''INFO'' msg"

definition warn :: "env \<Rightarrow> string \<Rightarrow> trace \<Rightarrow> trace" where
  "warn e msg = writeLog e ''WARN'' msg"

definition error :: "env \<Rightarrow> string \<Rightarrow> trace \<Rightarrow> trace" where
  "error e msg = writeLog e ''ERROR'' msg"

section \<open>Configuration\<close>

definition DEFAULT_CONFIG :: jsobject where
  "DEFAULT_CONFIG =
     [''startServer'' \<mapsto> JBool True,
      ''cleanUp'' \<mapsto> JBool True,
      ''downloaderArgs'' \<mapsto> JString [],
      ''javaArgs'' \<mapsto> JString ''-Xms2G -Xmx4G -XX:AOTCache=HytaleServer.aot'',
      ''hytaleArgs'' \<mapsto> JString ''--assets Assets.zip --bind 5520'']"

definition DEFAULT_CONFIG_text :: string where
  \<comment> \<open>\<open>JSON.stringify(DEFAULT_CONFIG, null, 2)\<close>\<close>
  "DEFAULT_CONFIG_text =
     ''{'' @ [newline] @
     ''  '' @ [dquote] @ ''startServer'' @ [dquote] @ '': true,'' @ [newline] @
     ''  '' @ [dquote] @ ''cleanUp'' @ [dquote] @ '': true,'' @ [newline] @
     ''  '' @ [dquote] @ ''downloaderArgs'' @ [dquote] @ '': '' @ [dquote, dquote] @ '','' @ [newline] @
     ''  '' @ [dquote] @ ''javaArgs'' @ [dquote] @ '': '' @ [dquote] @
        ''-Xms2G -Xmx4G -XX:AOTCache=HytaleServer.aot'' @ [dquote] @ '','' @ [newline] @
     ''  '' @ [dquote] @ ''hytaleArgs'' @ [dquote] @ '': '' @ [dquote] @
        ''--assets Assets.zip --bind 5520'' @ [dquote] @ [newline] @
     ''}''"

definition try_catch ::
  "(trace \<Rightarrow> 'a completion \<times> trace) \<Rightarrow> (js_error \<Rightarrow> trace \<Rightarrow> 'a completion \<times> trace) \<Rightarrow>
   trace \<Rightarrow> 'a completion \<times> trace" where
  \<comment> \<open>\<open>try { body } catch (err) { handler }\<close>\<close>
  "try_catch body handler tr =
     (case body tr of
        (Throw err, tr') \<Rightarrow> handler err tr'
      | r \<Rightarrow> r)"

definition loadConfig_body :: "env \<Rightarrow> trace \<Rightarrow> jsobject completion \<times> trace" where
  \<comment> \<open>the \<open>try\<close> block of \<open>loadConfig\<close>\<close>
  "loadConfig_body e tr =
     (if \<not> fs_exists e tr (CONFIG_FILE e) then
        (let tr1 = tr @ [WriteFileSync (CONFIG_FILE e) DEFAULT_CONFIG_text]
         in case fs_write_error e tr (CONFIG_FILE e) of
              Some m \<Rightarrow> (Throw (SysError m), tr1)
            | None \<Rightarrow> (Normal DEFAULT_CONFIG, log_info e ''Created default installer-config.json'' tr1))
      else
        (case fs_read e tr (CONFIG_FILE e) of
           Inl m \<Rightarrow> (Throw (SysError m), tr)
         | Inr raw \<Rightarrow>
             (case JSON_parse e raw of
                Inl m \<Rightarrow> (Throw (SysError m), tr)
              | Inr parsed \<Rightarrow> (Normal (DEFAULT_CONFIG ++ ownProps parsed), tr))))"

definition loadConfig :: "env \<Rightarrow> trace \<Rightarrow> jsobject completion \<times> trace" where
  "loadConfig e =
     try_catch (loadConfig_body e)
       (\<lambda>err tr. (Normal DEFAULT_CONFIG, error e (''Failed to load config.json: '' @ message err) tr))"

section \<open>Start of the program\<close>

definition reset_log :: "env \<Rightarrow> trace \<Rightarrow> trace" where
  \<comment> \<open>\<open>try { fs.writeFileSync(LOG_FILE, "") } catch (err) { console.error(...) }\<close>\<close>
  "reset_log e tr =
     (let tr1 = tr @ [WriteFileSync (LOG_FILE e) []]
      in case fs_write_error e tr (LOG_FILE e) of
           None \<Rightarrow> tr1
         | Some m \<Rightarrow> tr1 @ [Console Stderr [''Failed to reset log file:'', m]])"

definition module_init :: "env \<Rightarrow> (string \<times> jsobject) completion \<times> trace" where
  \<comment> \<open>the top-level statements in their order, up to \<open>const config = loadConfig()\<close>:
      the reset of the log file, the choice of \<open>DOWNLOADER_EXE\<close>, the configuration\<close>
  "module_init e =
     (let tr1 = reset_log e []
      in case DOWNLOADER_EXE (platform e) of
           None \<Rightarrow> (Throw (UnsupportedOS (platform e)), tr1)
         | Some exe \<Rightarrow>
             if exe = [] then (Throw (UnsupportedOS (platform e)), tr1)
             else (case loadConfig e tr1 of
                     (Normal config, tr2) \<Rightarrow> (Normal (exe, config), tr2)
                   | (Throw err, tr2) \<Rightarrow> (Throw err, tr2)
                   | (ProcessExit c, tr2) \<Rightarrow> (ProcessExit c, tr2)))"

section \<open>Helpers\<close>

definition resolve :: "unit completion option \<Rightarrow> unit completion option" where
  \<comment> \<open>a promise is \<open>None\<close> while pending; settling a settled promise does nothing\<close>
  "resolve p = (case p of None \<Rightarrow> Some (Normal ()) | Some r \<Rightarrow> Some r)"

definition reject :: "js_error \<Rightarrow> unit completion option \<Rightarrow> unit completion option" where
  "reject err p = (case p of None \<Rightarrow> Some (Throw err) | Some r \<Rightarrow> Some r)"

definition execAsync :: "env \<Rightarrow> string \<Rightarrow> trace \<Rightarrow> js_string completion \<times> trace" where
  "execAsync e cmd tr =
     (case exec_result e tr cmd of
        (err, stdout, stderr) \<Rightarrow>
          (case err of
             Some m \<Rightarrow>
               if stderr = [] then (Throw (SysError m), tr @ [Exec cmd])
               else (Normal (trim (stdout @ stderr)), tr @ [Exec cmd])
           | None \<Rightarrow> (Normal (trim (stdout @ stderr)), tr @ [Exec cmd])))"

record download_state =
  responded :: bool                        \<comment> \<open>the response callback has run\<close>
  listening :: bool                        \<comment> \<open>the listener of \<open>'finish'\<close> is registered\<close>
  promise :: "unit completion option"
  effects :: trace

fun download_step :: "path \<Rightarrow> download_state \<Rightarrow> net_event \<Rightarrow> download_state" where
  "download_step dest s (RequestError m) = s\<lparr>promise := reject (SysError m) (promise s)\<rparr>"
| "download_step dest s (Response code) =
     (if responded s then s
      else if code \<noteq> 200
      then s\<lparr>responded := True, promise := reject (DownloadFailed code) (promise s)\<rparr>
      else s\<lparr>responded := True, listening := True, effects := effects s @ [Pipe dest]\<rparr>)"
| "download_step dest s FileFinish =
     (if listening s
      then s\<lparr>promise := resolve (promise s), effects := effects s @ [CloseFile dest]\<rparr>
      else s)"

definition downloadFile :: "env \<Rightarrow> string \<Rightarrow> path \<Rightarrow> trace \<Rightarrow> unit completion option \<times> trace" where
  \<comment> \<open>the promise when the events are over: \<open>None\<close> is a promise that never settles\<close>
  "downloadFile e url dest tr =
     (let tr1 = tr @ [CreateWriteStream dest, HttpsGet url];
          s = foldl (download_step dest)
                \<lparr>responded = False, listening = False, promise = None, effects = tr1\<rparr>
                (https_events e tr1)
      in (promise s, effects s))"

definition checkJava :: "env \<Rightarrow> trace \<Rightarrow> unit completion \<times> trace" where
  "checkJava e tr =
     (case execAsync e ''java -version'' tr of
        (Normal out, tr1) \<Rightarrow>
          (case match_version out of
             None \<Rightarrow> (Throw CannotParseJavaVersion, tr1)
           | Some ds \<Rightarrow>
               (let version = Number_js ds
                in if version < 25 then (Throw (JavaTooOld version), tr1)
                   else (Normal (),
                         log_info e (''Java '' @ Number_toString e version @ '' - OK'') tr1)))
      | (_, tr1) \<Rightarrow> (Throw JavaNotAccessible, tr1))"

fun string_method :: "string \<Rightarrow> json option \<Rightarrow> js_error + string" where
  \<comment> \<open>the receiver of \<open>.split\<close>: only a string has the method, and \<open>null\<close> and
      \<open>undefined\<close> have no properties at all\<close>
  "string_method field (Some (JString s)) = Inr s"
| "string_method field None =
     Inl (TypeError ''Cannot read properties of undefined (reading 'split')'')"
| "string_method field (Some JNull) =
     Inl (TypeError ''Cannot read properties of null (reading 'split')'')"
| "string_method field v = Inl (TypeError (''config.'' @ field @ ''.split is not a function''))"

fun downloader_step :: "unit completion option \<Rightarrow> child_event \<Rightarrow> unit completion option" where
  "downloader_step p (ChildError m) = reject (SysError m) p"
| "downloader_step p (ChildExit code signal) =
     (case signal of
        Some (c # cs) \<Rightarrow> reject (TerminatedBySignal (c # cs)) p
      | _ \<Rightarrow> if code \<noteq> Some 0 then reject (ExitedWithCode code) p else resolve p)"

definition runDownloader ::
  "env \<Rightarrow> string \<Rightarrow> jsobject \<Rightarrow> trace \<Rightarrow> unit completion option \<times> trace" where
  \<comment> \<open>\<open>exe\<close> is \<open>DOWNLOADER_EXE\<close> and \<open>config\<close> the loaded configuration\<close>
  "runDownloader e exe config tr =
     (let exePath = path_resolve e (EXTRACT_DIR e) exe
      in case string_method ''downloaderArgs'' (config ''downloaderArgs'') of
           Inl err \<Rightarrow> (Some (Throw err), tr)
         | Inr s \<Rightarrow>
             (let args = split_js CHR '' '' s;
                  downloaderArgs = args;
                  tr1 = tr @ [Spawn exePath downloaderArgs (RUNTIME_DIR e)]
              in (foldl downloader_step None (spawn_events e tr1), tr1)))"

record zip_entry =
  name :: string
  time :: rat

fun stat_all :: "env \<Rightarrow> trace \<Rightarrow> path \<Rightarrow> string list \<Rightarrow> string + zip_entry list" where
  \<comment> \<open>the \<open>.map\<close> over the filtered names: the first \<open>statSync\<close> that throws ends it\<close>
  "stat_all e tr dir [] = Inr []"
| "stat_all e tr dir (f # fs) =
     (case fs_mtimeMs e tr (path_join e dir f) of
        Inl m \<Rightarrow> Inl m
      | Inr t \<Rightarrow>
          (case stat_all e tr dir fs of
             Inl m \<Rightarrow> Inl m
           | Inr zs \<Rightarrow> Inr (\<lparr>name = f, time = t\<rparr> # zs)))"

fun insert_js :: "('a \<Rightarrow> 'a \<Rightarrow> rat) \<Rightarrow> 'a \<Rightarrow> 'a list \<Rightarrow> 'a list" where
  "insert_js cmp x [] = [x]"
| "insert_js cmp x (y # ys) =
     (if cmp x y \<le> 0 then x # y # ys else y # insert_js cmp x ys)"

fun sort_js :: "('a \<Rightarrow> 'a \<Rightarrow> rat) \<Rightarrow> 'a list \<Rightarrow> 'a list" where
  \<comment> \<open>\<open>xs.sort(cmp)\<close>: a stable sort, \<open>cmp a b < 0\<close> puts \<open>a\<close> first\<close>
  "sort_js cmp [] = []"
| "sort_js cmp (x # xs) = insert_js cmp x (sort_js cmp xs)"

definition findNewestZip :: "env \<Rightarrow> path \<Rightarrow> trace \<Rightarrow> path completion \<times> trace" where
  "findNewestZip e dir tr =
     (let tr1 = log_info e ''Searching for newest ZIP...'' tr
      in case fs_readdir e tr1 dir of
           Inl m \<Rightarrow> (Throw (SysError m), tr1)
         | Inr entries \<Rightarrow>
             (case stat_all e tr1 dir (filter (\<lambda>f. endsWith f ''.zip'') entries) of
                Inl m \<Rightarrow> (Throw (SysError m), tr1)
              | Inr stats \<Rightarrow>
                  (case sort_js (\<lambda>a b. time b - time a) stats of
                     [] \<Rightarrow> (Throw NoZipFound, tr1)
                   | z # zs \<Rightarrow>
                       (let newest = path_join e dir (name z)
                        in (Normal newest, log_info e (''Newest ZIP: '' @ newest) tr1)))))"

fun deleteDirs :: "env \<Rightarrow> string option list \<Rightarrow> trace \<Rightarrow> trace" where
  \<comment> \<open>a path is \<open>None\<close> when it is \<open>null\<close> or \<open>undefined\<close>\<close>
  "deleteDirs e [] tr = tr"
| "deleteDirs e (None # dirs) tr = deleteDirs e dirs tr"
| "deleteDirs e (Some dir # dirs) tr =
     (if dir = [] \<or> dir = ''/'' \<or> dir = cwd e then deleteDirs e dirs tr
      else
        (let tr1 = tr @ [Rm dir 5 200]
         in case fs_rm_error e tr dir of
              None \<Rightarrow> deleteDirs e dirs tr1
            | Some m \<Rightarrow> deleteDirs e dirs (warn e (''Failed to delete '' @ dir @ '': '' @ m) tr1)))"

definition new_events :: "trace \<Rightarrow> trace \<Rightarrow> trace" where
  \<comment> \<open>what a call has added to the trace it was given\<close>
  "new_events tr tr' = drop (length tr) tr'"

section \<open>Final server start\<close>

definition show_code :: "int option \<Rightarrow> string" where
  \<comment> \<open>\<open>${code}\<close> for an exit code\<close>
  "show_code c =
     (case c of
        None \<Rightarrow> ''null''
      | Some n \<Rightarrow> (if n < 0 then ''-'' else []) @ show_nat (nat \<bar>n\<bar>))"

fun server_step :: "env \<Rightarrow> trace \<Rightarrow> child_event \<Rightarrow> trace" where
  \<comment> \<open>the two listeners on the server process\<close>
  "server_step e tr (ChildExit code signal) = log_info e (''Server exited with code '' @ show_code code) tr"
| "server_step e tr (ChildError m) = error e (''Failed to start server: '' @ m) tr"

definition startServer :: "env \<Rightarrow> jsobject \<Rightarrow> trace \<Rightarrow> unit completion \<times> trace" where
  "startServer e config tr =
     (if \<not> truthy (config ''startServer'')
      then (ProcessExit 0, log_info e ''Server start skipped. Exiting...'' tr)
      else
        (case string_method ''javaArgs'' (config ''javaArgs'') of
           Inl err \<Rightarrow> (Throw err, tr)
         | Inr js \<Rightarrow>
             (case string_method ''hytaleArgs'' (config ''hytaleArgs'') of
                Inl err \<Rightarrow> (Throw err, tr)
              | Inr hs \<Rightarrow>
                  (let args = split_js CHR '' '' js;
                       hytaleArgs = split_js CHR '' '' hs;
                       finalArgs = args @ [''-jar'', ''HytaleServer.jar''] @ hytaleArgs;
                       tr1 = log_info e ''Starting server with:'' tr;
                       tr2 = log_info e (''java '' @ join_js '' '' finalArgs) tr1;
                       tr3 = tr2 @ [Spawn ''java'' finalArgs (RUNTIME_DIR e)]
                   in (Normal (), foldl (server_step e) tr3 (spawn_events e tr3))))))"

section \<open>A sample environment\<close>

definition sample_text :: string where
  "sample_text = ''{'' @ [dquote] @ ''startServer'' @ [dquote] @ '': false}''"

definition sample_env :: env where
  \<comment> \<open>a Linux host on which everything succeeds, for evaluating the definitions\<close>
  "sample_env =
     \<lparr>platform = ''linux'',
      cwd = ''/srv/hytale'',
      pkg = False,
      execPath = ''/usr/bin/node'',
      path_dirname = (\<lambda>p. ''/usr/bin''),
      path_join = (\<lambda>d f. d @ ''/'' @ f),
      path_resolve = (\<lambda>d f. d @ ''/'' @ f),
      now = (\<lambda>tr. ''2026-01-01T00:00:00.000Z''),
      fs_write_error = (\<lambda>tr p. None),
      fs_exists = (\<lambda>tr p. True),
      fs_read = (\<lambda>tr p. Inr sample_text),
      fs_readdir = (\<lambda>tr p. Inr [''a.zip'', ''notes.txt'', ''b.zip'', ''c.zip'']),
      fs_mtimeMs = (\<lambda>tr p. if p = ''/srv/hytale/a.zip'' then Inr 10
                            else if p = ''/srv/hytale/b.zip'' then Inr 30
                            else if p = ''/srv/hytale/c.zip'' then Inr 20
                            else Inl ''ENOENT''),
      fs_rm_error = (\<lambda>tr p. None),
      JSON_parse = (\<lambda>s. if s = sample_text then Inr (JObject [(''startServer'', JBool False)])
                         else Inl ''Unexpected token''),
      Number_toString = show_nat,
      exec_result = (\<lambda>tr cmd. (None, [],
                       ascii ''openjdk version '' @ [0x22] @ ascii ''30.0.1'' @ [0x22] @
                       ascii '' 2026-09-15'')),
      spawn_events = (\<lambda>tr. [ChildExit (Some 0) None]),
      https_events = (\<lambda>tr. [Response 200, FileFinish])\<rparr>"

definition two_versions_env :: env where
  \<comment> \<open>the version query prints two versions, the older one first\<close>
  "two_versions_env =
     sample_env\<lparr>exec_result := (\<lambda>tr cmd. (None, [],
       ascii ''picked version '' @ [0x22] @ ascii ''17.0.2'' @ [0x22] @
       ascii '' over version '' @ [0x22] @ ascii ''30.0.1'' @ [0x22]))\<rparr>"

definition failed_query_env :: env where
  \<comment> \<open>\<open>exec\<close> reports an error, and a version was written to standard error\<close>
  "failed_query_env =
     sample_env\<lparr>exec_result := (\<lambda>tr cmd. (Some ''Command failed: java -version'', [],
       ascii ''openjdk version '' @ [0x22] @ ascii ''30.0.1'' @ [0x22]))\<rparr>"


definition reset_connection_env :: env where
  \<comment> \<open>the response arrives with status 200 and the request then emits \<open>'error'\<close>\<close>
  "reset_connection_env =
     sample_env\<lparr>https_events := (\<lambda>tr. [Response 200, RequestError ''read ECONNRESET''])\<rparr>"

definition lost_connection_env :: env where
  \<comment> \<open>the response arrives with status 200 and the connection is lost before the body
      ends: the request emits no \<open>'error'\<close> and the file never emits \<open>'finish'\<close>\<close>
  "lost_connection_env = sample_env\<lparr>https_events := (\<lambda>tr. [Response 200])\<rparr>"

section \<open>Facts about the log\<close>

lemma new_events_append [simp]: "new_events tr (tr @ xs) = xs"
  by (simp add: new_events_def)

lemma writeLog_extends: "\<exists>xs. writeLog e l m tr = tr @ xs"
  by (simp add: writeLog_def Let_def split: option.splits)

lemma writeLog_new_events:
  "new_events tr (writeLog e l m tr) =
     AppendFileSync (LOG_FILE e) (''['' @ now e tr @ ''] ['' @ l @ ''] '' @ m @ [newline]) #
     (case fs_write_error e tr (LOG_FILE e) of
        None \<Rightarrow> [] | Some err \<Rightarrow> [Console Stderr [''Failed to write log:'', err]]) @
     [Console (if l = ''ERROR'' then Stderr else Stdout) [m]]"
  by (simp add: writeLog_def new_events_def Let_def split: option.splits)

lemma writeLog_eq: "writeLog e l m tr = tr @ new_events tr (writeLog e l m tr)"
  by (simp add: writeLog_def new_events_def Let_def split: option.splits)

section \<open>The server launcher\<close>

text \<open>
  C9. When the loaded configuration has \<open>startServer = false\<close>, \<open>startServer\<close> ends the
  process with status 0. All it does before is to log the line
  \<open>Server start skipped. Exiting...\<close> at level INFO; in particular it spawns no process.
\<close>

theorem C9_startServer_skipped:
  "config ''startServer'' = Some (JBool False) \<Longrightarrow>
     fst (startServer e config tr) = ProcessExit 0
   \<and> snd (startServer e config tr) = log_info e (''Server start skipped'' @ ''. Exiting...'') tr
   \<and> Console Stdout [''Server start skipped'' @ ''. Exiting...'']
       \<in> set (new_events tr (snd (startServer e config tr)))
   \<and> (\<forall>cmd args d. Spawn cmd args d \<notin> set (new_events tr (snd (startServer e config tr))))"
  by (simp add: startServer_def log_info_def writeLog_new_events split: option.splits)

theorem C9_startServer_skipped_witness:
  "fst (startServer sample_env (DEFAULT_CONFIG(''startServer'' \<mapsto> JBool False)) []) = ProcessExit 0
   \<and> snd (startServer sample_env (DEFAULT_CONFIG(''startServer'' \<mapsto> JBool False)) []) =
       [AppendFileSync ''/srv/hytale/installer.log''
          (''[2026-01-01T00:00:00.000Z] [INFO] Server start skipped. Exiting...'' @ [newline]),
        Console Stdout [''Server start skipped. Exiting...'']]"
  using C9_startServer_skipped [of "DEFAULT_CONFIG(''startServer'' \<mapsto> JBool False)" sample_env "[]"]
  by (simp add: log_info_def writeLog_def sample_env_def LOG_FILE_def RUNTIME_DIR_def)

section \<open>Argument strings\<close>

lemma server_step_extends1: "\<exists>ys. server_step e tr ev = tr @ ys"
  by (cases ev) (simp_all add: log_info_def error_def writeLog_extends)

lemma server_steps_extend: "\<exists>xs. foldl (server_step e) tr evs = tr @ xs"
proof (induction evs arbitrary: tr)
  case Nil
  then show ?case by simp
next
  case (Cons ev evs)
  obtain ys where ys: "server_step e tr ev = tr @ ys"
    using server_step_extends1 by blast
  from Cons.IH [of "tr @ ys"] ys show ?case by auto
qed

lemma startServer_spawn:
  assumes "truthy (config ''startServer'')"
    and "config ''javaArgs'' = Some (JString js)"
    and "config ''hytaleArgs'' = Some (JString hs)"
  shows "Spawn ''java'' (split_js CHR '' '' js @ [''-jar'', ''HytaleServer.jar''] @ split_js CHR '' '' hs)
           (RUNTIME_DIR e) \<in> set (snd (startServer e config tr))"
proof -
  let ?ev = "Spawn ''java'' (split_js CHR '' '' js @ [''-jar'', ''HytaleServer.jar''] @ split_js CHR '' '' hs)
           (RUNTIME_DIR e)"
  obtain tr2 where "snd (startServer e config tr) =
      foldl (server_step e) (tr2 @ [?ev]) (spawn_events e (tr2 @ [?ev]))"
    using assms by (simp add: startServer_def Let_def)
  moreover obtain xs where "foldl (server_step e) (tr2 @ [?ev]) (spawn_events e (tr2 @ [?ev])) = (tr2 @ [?ev]) @ xs"
    using server_steps_extend by blast
  ultimately show ?thesis by simp
qed

text \<open>
  C10. Splitting the empty string on single spaces gives the list with the empty string as
  its only element. So an empty \<open>downloaderArgs\<close> (the default) spawns the downloader
  with the one argument \<open>""\<close>, and an empty \<open>javaArgs\<close> or \<open>hytaleArgs\<close> puts an
  empty argument at its place in the command line of the server.
\<close>

theorem C10_empty_argument_string:
  "split_js CHR '' '' [] = [[]]
   \<and> (config ''downloaderArgs'' = Some (JString []) \<longrightarrow>
        snd (runDownloader e exe config tr) =
          tr @ [Spawn (path_resolve e (EXTRACT_DIR e) exe) [[]] (RUNTIME_DIR e)])
   \<and> snd (runDownloader e exe DEFAULT_CONFIG tr) =
        tr @ [Spawn (path_resolve e (EXTRACT_DIR e) exe) [[]] (RUNTIME_DIR e)]
   \<and> (truthy (config ''startServer'') \<and> config ''javaArgs'' = Some (JString []) \<and>
        config ''hytaleArgs'' = Some (JString hs) \<longrightarrow>
        Spawn ''java'' ([[], ''-jar'', ''HytaleServer.jar''] @ split_js CHR '' '' hs) (RUNTIME_DIR e)
          \<in> set (snd (startServer e config tr)))
   \<and> (truthy (config ''startServer'') \<and> config ''javaArgs'' = Some (JString js) \<and>
        config ''hytaleArgs'' = Some (JString []) \<longrightarrow>
        Spawn ''java'' (split_js CHR '' '' js @ [''-jar'', ''HytaleServer.jar'', []]) (RUNTIME_DIR e)
          \<in> set (snd (startServer e config tr)))"
proof (intro conjI impI)
  show "split_js CHR '' '' [] = [[]]" by simp
next
  assume "config ''downloaderArgs'' = Some (JString [])"
  then show "snd (runDownloader e exe config tr) =
          tr @ [Spawn (path_resolve e (EXTRACT_DIR e) exe) [[]] (RUNTIME_DIR e)]"
    by (simp add: runDownloader_def Let_def)
next
  show "snd (runDownloader e exe DEFAULT_CONFIG tr) =
        tr @ [Spawn (path_resolve e (EXTRACT_DIR e) exe) [[]] (RUNTIME_DIR e)]"
    by (simp add: runDownloader_def DEFAULT_CONFIG_def Let_def)
next
  assume "truthy (config ''startServer'') \<and> config ''javaArgs'' = Some (JString []) \<and>
        config ''hytaleArgs'' = Some (JString hs)"
  then show "Spawn ''java'' ([[], ''-jar'', ''HytaleServer.jar''] @ split_js CHR '' '' hs) (RUNTIME_DIR e)
          \<in> set (snd (startServer e config tr))"
    using startServer_spawn [of config "[]" hs e tr] by simp
next
  assume "truthy (config ''startServer'') \<and> config ''javaArgs'' = Some (JString js) \<and>
        config ''hytaleArgs'' = Some (JString [])"
  then show "Spawn ''java'' (split_js CHR '' '' js @ [''-jar'', ''HytaleServer.jar'', []]) (RUNTIME_DIR e)
          \<in> set (snd (startServer e config tr))"
    using startServer_spawn [of config js "[]" e tr] by simp
qed

theorem C10_empty_argument_string_witness:
  "snd (runDownloader sample_env ''hytale-downloader-linux-amd64'' DEFAULT_CONFIG []) =
     [Spawn ''/srv/hytale/hytale-downloader/hytale-downloader-linux-amd64'' [[]] ''/srv/hytale'']
   \<and> Spawn ''java'' [[], ''-jar'', ''HytaleServer.jar'', ''--bind'', ''5520''] ''/srv/hytale''
       \<in> set (snd (startServer sample_env
            (DEFAULT_CONFIG(''javaArgs'' \<mapsto> JString [], ''hytaleArgs'' \<mapsto> JString ''--bind 5520'')) []))
   \<and> Spawn ''java'' [''-Xmx4G'', ''-jar'', ''HytaleServer.jar'', []] ''/srv/hytale''
       \<in> set (snd (startServer sample_env
            (DEFAULT_CONFIG(''javaArgs'' \<mapsto> JString ''-Xmx4G'', ''hytaleArgs'' \<mapsto> JString [])) []))"
  using C10_empty_argument_string
    [of "DEFAULT_CONFIG(''javaArgs'' \<mapsto> JString [], ''hytaleArgs'' \<mapsto> JString ''--bind 5520'')"
        sample_env "''hytale-downloader-linux-amd64''" "[]" "''--bind 5520''" "''-Xmx4G''"]
    C10_empty_argument_string
    [of "DEFAULT_CONFIG(''javaArgs'' \<mapsto> JString ''-Xmx4G'', ''hytaleArgs'' \<mapsto> JString [])"
        sample_env "''hytale-downloader-linux-amd64''" "[]" "''--bind 5520''" "''-Xmx4G''"]
  by (simp add: DEFAULT_CONFIG_def sample_env_def RUNTIME_DIR_def EXTRACT_DIR_def)

section \<open>The configuration never fails to load\<close>

lemma loadConfig_returns: "\<exists>config tr'. loadConfig e tr = (Normal config, tr')"
  by (auto simp: loadConfig_def try_catch_def loadConfig_body_def Let_def
           split: option.splits sum.splits prod.splits completion.splits)

section \<open>The platform resolver\<close>

lemma reset_log_events:
  "ev \<in> set (reset_log e []) \<Longrightarrow>
     ev = WriteFileSync (LOG_FILE e) [] \<or> (\<exists>m. ev = Console Stderr [''Failed to reset log file:'', m])"
  by (auto simp: reset_log_def Let_def split: option.splits)

text \<open>
  C7, as the specification states it, fails: the program truncates the log file before it
  looks at the platform, so on an unsupported platform a file has been written when the
  error is raised. On macOS the trace of the start of the program is that one write.
\<close>

theorem C7_counterexample:
  "fst (module_init (sample_env\<lparr>platform := ''darwin''\<rparr>)) = Throw (UnsupportedOS ''darwin'')
   \<and> snd (module_init (sample_env\<lparr>platform := ''darwin''\<rparr>)) =
       [WriteFileSync ''/srv/hytale/installer.log'' []]"
  by (simp add: module_init_def reset_log_def DOWNLOADER_EXE_def sample_env_def LOG_FILE_def
        RUNTIME_DIR_def)

text \<open>
  C7, amended. The resolver gives the Windows name for \<open>win32\<close> and the Linux name for
  \<open>linux\<close>, and the program goes on with them. For every other identifier there is no
  name and the program throws \<open>Unsupported OS\<close>; all it has done by then is the reset of
  the log file (one write of the empty string, and a message on the console should that
  write fail): no configuration is read or written, nothing is logged, no request is sent
  and no process is started.
\<close>

theorem C7_platform_resolver:
  "DOWNLOADER_EXE ''win32'' = Some ''hytale-downloader-windows-amd64.exe''
   \<and> DOWNLOADER_EXE ''linux'' = Some ''hytale-downloader-linux-amd64''
   \<and> (platform e = ''win32'' \<longrightarrow>
        (\<exists>config. fst (module_init e) = Normal (''hytale-downloader-windows-amd64.exe'', config)))
   \<and> (platform e = ''linux'' \<longrightarrow>
        (\<exists>config. fst (module_init e) = Normal (''hytale-downloader-linux-amd64'', config)))
   \<and> (platform e \<noteq> ''win32'' \<and> platform e \<noteq> ''linux'' \<longrightarrow>
        DOWNLOADER_EXE (platform e) = None
      \<and> fst (module_init e) = Throw (UnsupportedOS (platform e))
      \<and> snd (module_init e) = reset_log e []
      \<and> (\<forall>ev \<in> set (snd (module_init e)).
            ev = WriteFileSync (LOG_FILE e) [] \<or>
            (\<exists>m. ev = Console Stderr [''Failed to reset log file:'', m])))"
proof (intro conjI impI)
  show "DOWNLOADER_EXE ''win32'' = Some ''hytale-downloader-windows-amd64.exe''"
    by (simp add: DOWNLOADER_EXE_def)
  show "DOWNLOADER_EXE ''linux'' = Some ''hytale-downloader-linux-amd64''"
    by (simp add: DOWNLOADER_EXE_def)
next
  assume "platform e = ''win32''"
  moreover obtain config tr' where "loadConfig e (reset_log e []) = (Normal config, tr')"
    using loadConfig_returns by blast
  ultimately show "\<exists>config. fst (module_init e) = Normal (''hytale-downloader-windows-amd64.exe'', config)"
    by (simp add: module_init_def DOWNLOADER_EXE_def)
next
  assume "platform e = ''linux''"
  moreover obtain config tr' where "loadConfig e (reset_log e []) = (Normal config, tr')"
    using loadConfig_returns by blast
  ultimately show "\<exists>config. fst (module_init e) = Normal (''hytale-downloader-linux-amd64'', config)"
    by (simp add: module_init_def DOWNLOADER_EXE_def)
next
  assume other: "platform e \<noteq> ''win32'' \<and> platform e \<noteq> ''linux''"
  then show "DOWNLOADER_EXE (platform e) = None"
    by (simp add: DOWNLOADER_EXE_def)
  from other show "fst (module_init e) = Throw (UnsupportedOS (platform e))"
    by (simp add: module_init_def DOWNLOADER_EXE_def)
  from other show init: "snd (module_init e) = reset_log e []"
    by (simp add: module_init_def DOWNLOADER_EXE_def)
  show "\<forall>ev \<in> set (snd (module_init e)).
            ev = WriteFileSync (LOG_FILE e) [] \<or>
            (\<exists>m. ev = Console Stderr [''Failed to reset log file:'', m])"
    unfolding init using reset_log_events by blast
qed

theorem C7_platform_resolver_witness:
  "fst (module_init (sample_env\<lparr>platform := ''freebsd''\<rparr>)) = Throw (UnsupportedOS ''freebsd'')
   \<and> (\<exists>config. fst (module_init sample_env) = Normal (''hytale-downloader-linux-amd64'', config))
   \<and> (\<exists>config. fst (module_init (sample_env\<lparr>platform := ''win32''\<rparr>)) =
         Normal (''hytale-downloader-windows-amd64.exe'', config))"
  using C7_platform_resolver [of "sample_env\<lparr>platform := ''freebsd''\<rparr>"]
    C7_platform_resolver [of sample_env]
    C7_platform_resolver [of "sample_env\<lparr>platform := ''win32''\<rparr>"]
  by (simp add: sample_env_def)

section \<open>Cleanup\<close>

lemma deleteDirs_rm:
  "\<exists>xs. deleteDirs e ds tr = tr @ xs \<and>
     (\<forall>p n r. Rm p n r \<in> set xs \<longrightarrow> Some p \<in> set ds \<and> p \<noteq> [] \<and> p \<noteq> ''/'' \<and> p \<noteq> cwd e)"
proof (induction e ds tr rule: deleteDirs.induct)
  case (1 e tr)
  then show ?case by simp
next
  case (2 e dirs tr)
  then show ?case by auto
next
  case (3 e dir dirs tr)
  show ?case
  proof (cases "dir = [] \<or> dir = ''/'' \<or> dir = cwd e")
    case True
    with 3(1) show ?thesis by auto
  next
    case False
    show ?thesis
    proof (cases "fs_rm_error e tr dir")
      case None
      from 3(2) [OF False refl None] obtain xs where
        xs: "deleteDirs e dirs (tr @ [Rm dir 5 200]) = (tr @ [Rm dir 5 200]) @ xs"
        and rm: "\<forall>p n r. Rm p n r \<in> set xs \<longrightarrow> Some p \<in> set dirs \<and> p \<noteq> [] \<and> p \<noteq> ''/'' \<and> p \<noteq> cwd e"
        by blast
      have "deleteDirs e (Some dir # dirs) tr = tr @ (Rm dir 5 200 # xs)"
        using False None xs by simp
      moreover have "\<forall>p n r. Rm p n r \<in> set (Rm dir 5 200 # xs) \<longrightarrow>
          Some p \<in> set (Some dir # dirs) \<and> p \<noteq> [] \<and> p \<noteq> ''/'' \<and> p \<noteq> cwd e"
        using False rm by auto
      ultimately show ?thesis by blast
    next
      case (Some m)
      have ys: "warn e (''Failed to delete '' @ dir @ '': '' @ m) (tr @ [Rm dir 5 200])
          = (tr @ [Rm dir 5 200]) @ new_events (tr @ [Rm dir 5 200]) (warn e (''Failed to delete '' @ dir @ '': '' @ m) (tr @ [Rm dir 5 200]))"
        using writeLog_eq by (simp add: warn_def)
      have norm: "\<And>p n r. Rm p n r \<notin> set (new_events (tr @ [Rm dir 5 200]) (warn e (''Failed to delete '' @ dir @ '': '' @ m) (tr @ [Rm dir 5 200])))"
        by (simp add: warn_def writeLog_new_events split: option.splits)
      from 3(3) [OF False refl Some] obtain xs where
        xs: "deleteDirs e dirs (warn e (''Failed to delete '' @ dir @ '': '' @ m) (tr @ [Rm dir 5 200])) =
               warn e (''Failed to delete '' @ dir @ '': '' @ m) (tr @ [Rm dir 5 200]) @ xs"
        and rm: "\<forall>p n r. Rm p n r \<in> set xs \<longrightarrow> Some p \<in> set dirs \<and> p \<noteq> [] \<and> p \<noteq> ''/'' \<and> p \<noteq> cwd e"
        by blast
      let ?w = "new_events (tr @ [Rm dir 5 200]) (warn e (''Failed to delete '' @ dir @ '': '' @ m) (tr @ [Rm dir 5 200]))"
      have "deleteDirs e (Some dir # dirs) tr = tr @ (Rm dir 5 200 # ?w @ xs)"
        using False Some xs ys by simp
      moreover have "\<forall>p n r. Rm p n r \<in> set (Rm dir 5 200 # ?w @ xs) \<longrightarrow>
          Some p \<in> set (Some dir # dirs) \<and> p \<noteq> [] \<and> p \<noteq> ''/'' \<and> p \<noteq> cwd e"
        using False rm norm by auto
      ultimately show ?thesis by blast
    qed
  qed
qed

lemma deleteDirs_skip:
  "d = None \<or> d = Some [] \<or> d = Some ''/'' \<or> d = Some (cwd e) \<Longrightarrow>
     deleteDirs e (xs @ d # ys) tr = deleteDirs e (xs @ ys) tr"
proof (induction xs arbitrary: tr)
  case Nil
  then show ?case by auto
next
  case (Cons x xs)
  show ?case
  proof (cases x)
    case None
    then show ?thesis using Cons by simp
  next
    case (Some dir)
    then show ?thesis using Cons by (simp add: Let_def split: option.splits)
  qed
qed

lemma deleteDirs_all_skipped:
  "\<forall>d \<in> set ds. d = None \<or> d = Some [] \<or> d = Some ''/'' \<or> d = Some (cwd e) \<Longrightarrow>
     deleteDirs e ds tr = tr"
  by (induction e ds tr rule: deleteDirs.induct) auto

text \<open>
  C1. A path that is \<open>null\<close>, empty, \<open>/\<close> or the current working directory is skipped by
  \<open>deleteDirs\<close>: alone it leaves everything as it was, inside a list the call does what it
  does without it, no \<open>rm\<close> is ever attempted on it, and a list of such paths only is a
  call without any effect.
\<close>

theorem C1_deleteDirs_guard:
  "d = None \<or> d = Some [] \<or> d = Some ''/'' \<or> d = Some (cwd e) \<Longrightarrow>
     deleteDirs e [d] tr = tr
   \<and> deleteDirs e (xs @ d # ys) tr = deleteDirs e (xs @ ys) tr
   \<and> (\<forall>p n r. d = Some p \<longrightarrow> Rm p n r \<notin> set (new_events tr (deleteDirs e (xs @ d # ys) tr)))
   \<and> ((\<forall>d' \<in> set ds. d' = None \<or> d' = Some [] \<or> d' = Some ''/'' \<or> d' = Some (cwd e)) \<longrightarrow>
        deleteDirs e ds tr = tr)"
proof (intro conjI allI impI)
  assume guard: "d = None \<or> d = Some [] \<or> d = Some ''/'' \<or> d = Some (cwd e)"
  from guard show "deleteDirs e [d] tr = tr"
    by auto
  from guard show "deleteDirs e (xs @ d # ys) tr = deleteDirs e (xs @ ys) tr"
    by (rule deleteDirs_skip)
  fix p n r
  assume d: "d = Some p"
  obtain zs where zs: "deleteDirs e (xs @ d # ys) tr = tr @ zs"
    and rm: "\<forall>p n r. Rm p n r \<in> set zs \<longrightarrow>
               Some p \<in> set (xs @ d # ys) \<and> p \<noteq> [] \<and> p \<noteq> ''/'' \<and> p \<noteq> cwd e"
    using deleteDirs_rm by blast
  from guard d rm have "Rm p n r \<notin> set zs"
    by auto
  then show "Rm p n r \<notin> set (new_events tr (deleteDirs e (xs @ d # ys) tr))"
    by (simp add: zs)
next
  assume "\<forall>d' \<in> set ds. d' = None \<or> d' = Some [] \<or> d' = Some ''/'' \<or> d' = Some (cwd e)"
  then show "deleteDirs e ds tr = tr"
    by (rule deleteDirs_all_skipped)
qed

theorem C1_deleteDirs_guard_witness:
  "deleteDirs sample_env [Some ''/srv/hytale''] [] = []
   \<and> deleteDirs sample_env [Some ''/'', None, Some []] [] = []
   \<and> deleteDirs sample_env [Some ''/srv/hytale/hytale-downloader'', Some ''/srv/hytale'', Some ''/srv/hytale/Server''] []
       = [Rm ''/srv/hytale/hytale-downloader'' 5 200, Rm ''/srv/hytale/Server'' 5 200]"
  using C1_deleteDirs_guard [of "Some ''/srv/hytale''" sample_env "[]"
      "[Some ''/srv/hytale/hytale-downloader'']" "[Some ''/srv/hytale/Server'']" "[Some ''/'', None, Some []]"]
  by (simp add: sample_env_def)

section \<open>Loading the configuration\<close>
















text \<open>
  C8. \<open>loadConfig\<close> returns a configuration on every input: it never throws and never ends
  the process, and whenever its \<open>try\<close> block throws the result is the defaults. When the
  file exists and is read but does not parse, it returns the defaults and logs one line at
  level ERROR; it writes no file, and the only file it appends to is the log.
\<close>

theorem C8_loadConfig_degrades:
  "(\<exists>config tr'. loadConfig e tr = (Normal config, tr'))
   \<and> ((\<exists>err. fst (loadConfig_body e tr) = Throw err) \<longrightarrow> fst (loadConfig e tr) = Normal DEFAULT_CONFIG)
   \<and> (fs_exists e tr (CONFIG_FILE e) \<and> fs_read e tr (CONFIG_FILE e) = Inr raw \<and>
      JSON_parse e raw = Inl m \<longrightarrow>
        loadConfig e tr = (Normal DEFAULT_CONFIG, error e (''Failed to load config.json: '' @ m) tr)
      \<and> new_events tr (snd (loadConfig e tr)) =
          AppendFileSync (LOG_FILE e)
            (''['' @ now e tr @ ''] [ERROR] Failed to load config.json: '' @ m @ [newline]) #
          (case fs_write_error e tr (LOG_FILE e) of
             None \<Rightarrow> [] | Some err \<Rightarrow> [Console Stderr [''Failed to write log:'', err]]) @
          [Console Stderr [''Failed to load config.json: '' @ m]]
      \<and> (\<forall>p data. WriteFileSync p data \<notin> set (new_events tr (snd (loadConfig e tr))))
      \<and> (\<forall>p data. AppendFileSync p data \<in> set (new_events tr (snd (loadConfig e tr))) \<longrightarrow>
            p = LOG_FILE e))"
proof (intro conjI impI)
  show "\<exists>config tr'. loadConfig e tr = (Normal config, tr')"
    by (rule loadConfig_returns)
  show "fst (loadConfig e tr) = Normal DEFAULT_CONFIG" if "\<exists>err. fst (loadConfig_body e tr) = Throw err"
    using that by (auto simp: loadConfig_def try_catch_def split: prod.splits completion.splits)
next
  assume h: "fs_exists e tr (CONFIG_FILE e) \<and> fs_read e tr (CONFIG_FILE e) = Inr raw \<and>
      JSON_parse e raw = Inl m"
  then show eq: "loadConfig e tr = (Normal DEFAULT_CONFIG, error e (''Failed to load config.json: '' @ m) tr)"
    by (simp add: loadConfig_def try_catch_def loadConfig_body_def)
  show new: "new_events tr (snd (loadConfig e tr)) =
          AppendFileSync (LOG_FILE e)
            (''['' @ now e tr @ ''] [ERROR] Failed to load config.json: '' @ m @ [newline]) #
          (case fs_write_error e tr (LOG_FILE e) of
             None \<Rightarrow> [] | Some err \<Rightarrow> [Console Stderr [''Failed to write log:'', err]]) @
          [Console Stderr [''Failed to load config.json: '' @ m]]"
    by (simp add: eq error_def writeLog_new_events)
  show "\<forall>p data. WriteFileSync p data \<notin> set (new_events tr (snd (loadConfig e tr)))"
    unfolding new by (simp split: option.splits)
  show "\<forall>p data. AppendFileSync p data \<in> set (new_events tr (snd (loadConfig e tr))) \<longrightarrow>
            p = LOG_FILE e"
    unfolding new by (simp split: option.splits)
qed

theorem C8_loadConfig_degrades_witness:
  "loadConfig (sample_env\<lparr>fs_read := (\<lambda>tr p. Inr ''{oops'')\<rparr>) [] =
     (Normal DEFAULT_CONFIG,
      [AppendFileSync ''/srv/hytale/installer.log''
         (''[2026-01-01T00:00:00.000Z] [ERROR] Failed to load config.json: Unexpected token'' @ [newline]),
       Console Stderr [''Failed to load config.json: Unexpected token'']])"
  using C8_loadConfig_degrades [of "sample_env\<lparr>fs_read := (\<lambda>tr p. Inr ''{oops'')\<rparr>" "[]" "''{oops''"
      "''Unexpected token''"]
  by (simp add: sample_env_def sample_text_def error_def writeLog_def LOG_FILE_def RUNTIME_DIR_def)

section \<open>The downloader runner\<close>

lemma split_js_nonempty: "split_js sep s \<noteq> []"
  by (induction s) (auto split: list.splits)

lemma join_split: "join_js [sep] (split_js sep s) = s"
proof (induction s)
  case Nil
  then show ?case by simp
next
  case (Cons c cs)
  show ?case
  proof (cases "c = sep")
    case True
    then show ?thesis
      using Cons split_js_nonempty [of sep cs]
      by (cases "split_js sep cs") auto
  next
    case False
    then show ?thesis
      using Cons split_js_nonempty [of sep cs]
      by (cases "split_js sep cs"; cases "tl (split_js sep cs)") auto
  qed
qed

lemma split_js_no_sep: "a \<in> set (split_js sep s) \<Longrightarrow> sep \<notin> set a"
  by (induction s arbitrary: a) (auto split: if_splits list.splits)

lemma length_split_js: "length (split_js sep s) = Suc (count_list s sep)"
  by (induction s) (auto split: list.splits simp: split_js_nonempty)

lemma downloader_settled: "foldl downloader_step (Some r) evs = Some r"
proof (induction evs)
  case Nil
  then show ?case by simp
next
  case (Cons ev evs)
  have "downloader_step (Some r) ev = Some r"
    by (cases ev) (auto simp: reject_def resolve_def split: option.splits list.splits)
  then show ?case using Cons by simp
qed

lemma downloader_first:
  "foldl downloader_step None (ev # evs) = downloader_step None ev"
proof -
  have "\<exists>r. downloader_step None ev = Some r"
    by (cases ev) (simp_all add: reject_def resolve_def split: option.splits list.splits)
  then show ?thesis by (auto simp: downloader_settled)
qed

text \<open>
  C4. With the argument string \<open>s\<close> configured, \<open>runDownloader\<close> spawns the executable in
  the installation directory with the pieces of \<open>s\<close> between its spaces: joined by single
  spaces they give \<open>s\<close> back, none contains a space, and there is one more of them than
  there are spaces, so quotes and backslashes are characters like any other. The promise
  resolves if and only if the first event of the child is an exit with code 0 and no
  signal. An exit by a signal rejects with that signal, an exit with another code (or none)
  rejects with that code, an error of the child rejects with that error, and a child that
  emits nothing leaves the promise pending.
\<close>

theorem C4_runDownloader:
  assumes "config ''downloaderArgs'' = Some (JString s)"
  shows "snd (runDownloader e exe config tr) =
           tr @ [Spawn (path_resolve e (EXTRACT_DIR e) exe) (split_js CHR '' '' s) (RUNTIME_DIR e)]
     \<and> join_js '' '' (split_js CHR '' '' s) = s
     \<and> (\<forall>a \<in> set (split_js CHR '' '' s). CHR '' '' \<notin> set a)
     \<and> length (split_js CHR '' '' s) = Suc (count_list s CHR '' '')
     \<and> (fst (runDownloader e exe config tr) = Some (Normal ()) \<longleftrightarrow>
          (\<exists>signal rest. spawn_events e (snd (runDownloader e exe config tr)) =
             ChildExit (Some 0) signal # rest \<and> (signal = None \<or> signal = Some [])))
     \<and> (\<forall>code c cs rest. spawn_events e (snd (runDownloader e exe config tr)) =
             ChildExit code (Some (c # cs)) # rest \<longrightarrow>
          fst (runDownloader e exe config tr) = Some (Throw (TerminatedBySignal (c # cs))))
     \<and> (\<forall>code signal rest. spawn_events e (snd (runDownloader e exe config tr)) =
             ChildExit code signal # rest \<and> (signal = None \<or> signal = Some []) \<and> code \<noteq> Some 0 \<longrightarrow>
          fst (runDownloader e exe config tr) = Some (Throw (ExitedWithCode code)))
     \<and> (\<forall>m rest. spawn_events e (snd (runDownloader e exe config tr)) = ChildError m # rest \<longrightarrow>
          fst (runDownloader e exe config tr) = Some (Throw (SysError m)))
     \<and> (spawn_events e (snd (runDownloader e exe config tr)) = [] \<longrightarrow>
          fst (runDownloader e exe config tr) = None)"
proof -
  let ?tr1 = "tr @ [Spawn (path_resolve e (EXTRACT_DIR e) exe) (split_js CHR '' '' s) (RUNTIME_DIR e)]"
  have tr1: "snd (runDownloader e exe config tr) = ?tr1"
    using assms by (simp add: runDownloader_def Let_def)
  have res: "fst (runDownloader e exe config tr) = foldl downloader_step None (spawn_events e ?tr1)"
    using assms by (simp add: runDownloader_def Let_def)
  have iff: "foldl downloader_step None evs = Some (Normal ()) \<longleftrightarrow>
      (\<exists>signal rest. evs = ChildExit (Some 0) signal # rest \<and> (signal = None \<or> signal = Some []))"
    for evs
  proof (cases evs)
    case Nil
    then show ?thesis by simp
  next
    case (Cons ev rest)
    show ?thesis
      unfolding Cons downloader_first
      by (cases ev) (auto simp: reject_def resolve_def split: option.splits list.splits)
  qed
  show ?thesis
    unfolding tr1 res
    by (intro conjI allI impI iff)
       (auto simp: join_split [of "CHR '' ''", simplified] split_js_no_sep length_split_js
          downloader_first reject_def resolve_def simp del: foldl_Cons)
qed

theorem C4_runDownloader_witness:
  "runDownloader sample_env ''hytale-downloader-linux-amd64''
     (DEFAULT_CONFIG(''downloaderArgs'' \<mapsto> JString (''--name '' @ [dquote] @ ''a b'' @ [dquote]))) [] =
     (Some (Normal ()),
      [Spawn ''/srv/hytale/hytale-downloader/hytale-downloader-linux-amd64''
         [''--name'', [dquote] @ ''a'', ''b'' @ [dquote]] ''/srv/hytale''])
   \<and> fst (runDownloader (sample_env\<lparr>spawn_events := (\<lambda>tr. [ChildExit None (Some ''SIGTERM'')])\<rparr>)
          ''hytale-downloader-linux-amd64''
          (DEFAULT_CONFIG(''downloaderArgs'' \<mapsto> JString ''--patchline pre-release'')) []) =
       Some (Throw (TerminatedBySignal ''SIGTERM''))
   \<and> fst (runDownloader (sample_env\<lparr>spawn_events := (\<lambda>tr. [ChildExit (Some 3) None])\<rparr>)
          ''hytale-downloader-linux-amd64''
          (DEFAULT_CONFIG(''downloaderArgs'' \<mapsto> JString ''--patchline pre-release'')) []) =
       Some (Throw (ExitedWithCode (Some 3)))"
proof -
  let ?c1 = "DEFAULT_CONFIG(''downloaderArgs'' \<mapsto> JString (''--name '' @ [dquote] @ ''a b'' @ [dquote]))"
  let ?c2 = "DEFAULT_CONFIG(''downloaderArgs'' \<mapsto> JString ''--patchline pre-release'')"
  have h1: "?c1 ''downloaderArgs'' = Some (JString (''--name '' @ [dquote] @ ''a b'' @ [dquote]))"
    by simp
  have h2: "?c2 ''downloaderArgs'' = Some (JString ''--patchline pre-release'')"
    by simp
  note a = C4_runDownloader [where config = ?c1 and e = sample_env
      and exe = "''hytale-downloader-linux-amd64''" and tr = "[]", OF h1]
  note b = C4_runDownloader [where config = ?c2
      and e = "sample_env\<lparr>spawn_events := (\<lambda>tr. [ChildExit None (Some ''SIGTERM'')])\<rparr>"
      and exe = "''hytale-downloader-linux-amd64''" and tr = "[]", OF h2]
  note c = C4_runDownloader [where config = ?c2
      and e = "sample_env\<lparr>spawn_events := (\<lambda>tr. [ChildExit (Some 3) None])\<rparr>"
      and exe = "''hytale-downloader-linux-amd64''" and tr = "[]", OF h2]
  have "fst (runDownloader sample_env ''hytale-downloader-linux-amd64'' ?c1 []) = Some (Normal ())"
    using a by (simp add: sample_env_def)
  moreover have "snd (runDownloader sample_env ''hytale-downloader-linux-amd64'' ?c1 []) =
      [Spawn ''/srv/hytale/hytale-downloader/hytale-downloader-linux-amd64''
         [''--name'', [dquote] @ ''a'', ''b'' @ [dquote]] ''/srv/hytale'']"
    using a by (simp add: sample_env_def EXTRACT_DIR_def RUNTIME_DIR_def dquote_def)
  moreover have "fst (runDownloader (sample_env\<lparr>spawn_events := (\<lambda>tr. [ChildExit None (Some ''SIGTERM'')])\<rparr>)
          ''hytale-downloader-linux-amd64'' ?c2 []) = Some (Throw (TerminatedBySignal ''SIGTERM''))"
    using b by simp
  moreover have "fst (runDownloader (sample_env\<lparr>spawn_events := (\<lambda>tr. [ChildExit (Some 3) None])\<rparr>)
          ''hytale-downloader-linux-amd64'' ?c2 []) = Some (Throw (ExitedWithCode (Some 3)))"
    using c by simp
  ultimately show ?thesis
    by (simp add: prod_eq_iff)
qed

section \<open>The artifact locator\<close>

lemma set_insert_js: "set (insert_js cmp x ys) = insert x (set ys)"
  by (induction ys) auto

lemma set_sort_js: "set (sort_js cmp xs) = set xs"
  by (induction xs) (auto simp: set_insert_js)

lemma sorted_insert_js:
  "sorted_wrt (\<lambda>a b. time b \<le> time a) ys \<Longrightarrow>
   sorted_wrt (\<lambda>a b. time b \<le> time a) (insert_js (\<lambda>a b. time b - time a) x ys)"
  by (induction ys) (auto simp: set_insert_js)

lemma sorted_sort_js:
  "sorted_wrt (\<lambda>a b. time b \<le> time a) (sort_js (\<lambda>a b. time b - time a) xs)"
  by (induction xs) (auto simp: sorted_insert_js)

lemma sort_js_head:
  assumes "sort_js (\<lambda>a b. time b - time a) xs = z # zs"
  shows "z \<in> set xs \<and> (\<forall>y \<in> set xs. time y \<le> time z)"
proof -
  have "set xs = insert z (set zs)"
    using set_sort_js [of "\<lambda>a b. time b - time a" xs] assms by simp
  moreover have "\<forall>y \<in> set zs. time y \<le> time z"
    using sorted_sort_js [of xs] assms by simp
  ultimately show ?thesis by auto
qed

lemma sort_js_Nil: "sort_js cmp xs = [] \<longleftrightarrow> xs = []"
  using set_sort_js [of cmp xs] by (cases xs) (auto simp del: sort_js.simps)

lemma stat_all_ok:
  "(\<And>f. f \<in> set fs \<Longrightarrow> fs_mtimeMs e tr (path_join e dir f) = Inr (mt f)) \<Longrightarrow>
   stat_all e tr dir fs = Inr (map (\<lambda>f. \<lparr>name = f, time = mt f\<rparr>) fs)"
  by (induction fs) auto

text \<open>
  C5. Let the listing of \<open>dir\<close> succeed, and let \<open>mt f\<close> be the modification time that
  \<open>statSync\<close> reports for each listed name \<open>f\<close> that ends in \<open>.zip\<close> (the other entries are
  never looked at). If no listed name ends in \<open>.zip\<close>, \<open>findNewestZip\<close> throws
  \<open>No downloaded ZIP found\<close>. Otherwise it returns the path of a listed name that ends in
  \<open>.zip\<close> and whose modification time is the greatest among those names.
\<close>

theorem C5_findNewestZip:
  assumes "fs_readdir e (log_info e ''Searching for newest ZIP...'' tr) dir = Inr entries"
    and "\<And>f. f \<in> set entries \<Longrightarrow> endsWith f ''.zip'' \<Longrightarrow>
           fs_mtimeMs e (log_info e ''Searching for newest ZIP...'' tr) (path_join e dir f) = Inr (mt f)"
  shows "(filter (\<lambda>f. endsWith f ''.zip'') entries = [] \<longrightarrow>
            fst (findNewestZip e dir tr) = Throw NoZipFound)
     \<and> (filter (\<lambda>f. endsWith f ''.zip'') entries \<noteq> [] \<longrightarrow>
          (\<exists>f. fst (findNewestZip e dir tr) = Normal (path_join e dir f)
             \<and> f \<in> set entries \<and> endsWith f ''.zip''
             \<and> (\<forall>g \<in> set entries. endsWith g ''.zip'' \<longrightarrow> mt g \<le> mt f)))"
proof -
  let ?tr1 = "log_info e ''Searching for newest ZIP...'' tr"
  let ?zs = "filter (\<lambda>f. endsWith f ''.zip'') entries"
  let ?stats = "map (\<lambda>f. \<lparr>name = f, time = mt f\<rparr>) ?zs"
  have stats: "stat_all e ?tr1 dir ?zs = Inr ?stats"
    using assms(2) by (intro stat_all_ok) simp
  show ?thesis
  proof (intro conjI impI)
    assume "?zs = []"
    then show "fst (findNewestZip e dir tr) = Throw NoZipFound"
      using assms(1) by (simp add: findNewestZip_def Let_def)
  next
    assume ne: "?zs \<noteq> []"
    then obtain z rest where srt: "sort_js (\<lambda>a b. time b - time a) ?stats = z # rest"
      using sort_js_Nil [of "\<lambda>a b. time b - time a" ?stats]
      by (cases "sort_js (\<lambda>a b. time b - time a) ?stats") auto
    from sort_js_head [OF srt] have z: "z \<in> set ?stats" and mx: "\<forall>y \<in> set ?stats. time y \<le> time z"
      by blast+
    from z obtain f where f: "f \<in> set ?zs" "z = \<lparr>name = f, time = mt f\<rparr>"
      by auto
    have "fst (findNewestZip e dir tr) = Normal (path_join e dir f)"
      using assms(1) stats srt f by (simp add: findNewestZip_def Let_def)
    moreover have "\<forall>g \<in> set entries. endsWith g ''.zip'' \<longrightarrow> mt g \<le> mt f"
      using mx f by auto
    ultimately show "\<exists>f. fst (findNewestZip e dir tr) = Normal (path_join e dir f)
             \<and> f \<in> set entries \<and> endsWith f ''.zip''
             \<and> (\<forall>g \<in> set entries. endsWith g ''.zip'' \<longrightarrow> mt g \<le> mt f)"
      using f by auto
  qed
qed

theorem C5_findNewestZip_witness:
  "fst (findNewestZip sample_env ''/srv/hytale'' []) = Normal ''/srv/hytale/b.zip''
   \<and> fst (findNewestZip (sample_env\<lparr>fs_readdir := (\<lambda>tr p. Inr [''notes.txt'', ''A.ZIP''])\<rparr>)
          ''/srv/hytale'' []) = Throw NoZipFound"
proof -
  let ?mt = "\<lambda>f. if f = ''a.zip'' then 10 else if f = ''b.zip'' then 30 else (20::rat)"
  let ?e2 = "sample_env\<lparr>fs_readdir := (\<lambda>tr p. Inr [''notes.txt'', ''A.ZIP''])\<rparr>"
  have no: "\<not> endsWith ''notes.txt'' ''.zip''" "\<not> endsWith ''A.ZIP'' ''.zip''"
    by (simp_all add: endsWith_def)
  have yes: "endsWith ''a.zip'' ''.zip''" "endsWith ''b.zip'' ''.zip''" "endsWith ''c.zip'' ''.zip''"
    by (simp_all add: endsWith_def)
  have r1: "fs_readdir sample_env (log_info sample_env ''Searching for newest ZIP...'' []) ''/srv/hytale''
      = Inr [''a.zip'', ''notes.txt'', ''b.zip'', ''c.zip'']"
    by (simp add: sample_env_def)
  have s1: "fs_mtimeMs sample_env (log_info sample_env ''Searching for newest ZIP...'' [])
      (path_join sample_env ''/srv/hytale'' f) = Inr (?mt f)"
    if "f \<in> set [''a.zip'', ''notes.txt'', ''b.zip'', ''c.zip'']" "endsWith f ''.zip''" for f
  proof -
    from that(1) consider "f = ''a.zip''" | "f = ''notes.txt''" | "f = ''b.zip''" | "f = ''c.zip''"
      by auto
    then show ?thesis
    proof cases
      case 2
      then show ?thesis using that(2) no by simp
    qed (simp_all add: sample_env_def)
  qed
  have r2: "fs_readdir ?e2 (log_info ?e2 ''Searching for newest ZIP...'' []) ''/srv/hytale''
      = Inr [''notes.txt'', ''A.ZIP'']"
    by simp
  have s2: "fs_mtimeMs ?e2 (log_info ?e2 ''Searching for newest ZIP...'' [])
      (path_join ?e2 ''/srv/hytale'' f) = Inr (?mt f)"
    if "f \<in> set [''notes.txt'', ''A.ZIP'']" "endsWith f ''.zip''" for f
  proof -
    from that(1) consider "f = ''notes.txt''" | "f = ''A.ZIP''"
      by auto
    then show ?thesis
      using that(2) no by cases simp_all
  qed
  note a = C5_findNewestZip [of sample_env "[]" "''/srv/hytale''" _ ?mt, OF r1 s1]
  note b = C5_findNewestZip [of ?e2 "[]" "''/srv/hytale''" _ ?mt, OF r2 s2]
  from a obtain f where f: "fst (findNewestZip sample_env ''/srv/hytale'' []) =
        Normal (path_join sample_env ''/srv/hytale'' f)"
      and mx: "\<forall>g \<in> set [''a.zip'', ''notes.txt'', ''b.zip'', ''c.zip'']. endsWith g ''.zip'' \<longrightarrow> ?mt g \<le> ?mt f"
    using yes by auto
  from mx yes have "?mt ''b.zip'' \<le> ?mt f"
    by simp
  then have "f = ''b.zip''"
    by (simp split: if_splits)
  with f have "fst (findNewestZip sample_env ''/srv/hytale'' []) = Normal ''/srv/hytale/b.zip''"
    by (simp add: sample_env_def)
  moreover from b no have "fst (findNewestZip ?e2 ''/srv/hytale'' []) = Throw NoZipFound"
    by simp
  ultimately show ?thesis by simp
qed

section \<open>The network fetcher\<close>

lemma download_step_settled:
  "promise s = Some r \<Longrightarrow> promise (download_step dest s ev) = Some r"
  by (cases ev) (auto simp: reject_def resolve_def)

lemma download_settled:
  "promise s = Some r \<Longrightarrow> promise (foldl (download_step dest) s evs) = Some r"
  by (induction evs arbitrary: s) (auto simp: download_step_settled)

lemma download_step_no_get:
  "\<exists>xs. effects (download_step dest s ev) = effects s @ xs \<and> (\<forall>u. HttpsGet u \<notin> set xs)
     \<and> (\<forall>p. CreateWriteStream p \<notin> set xs)"
  by (cases ev) auto

lemma download_no_get:
  "\<exists>xs. effects (foldl (download_step dest) s evs) = effects s @ xs \<and> (\<forall>u. HttpsGet u \<notin> set xs)
     \<and> (\<forall>p. CreateWriteStream p \<notin> set xs)"
proof (induction evs arbitrary: s)
  case Nil
  then show ?case by simp
next
  case (Cons ev evs)
  obtain xs where xs: "effects (download_step dest s ev) = effects s @ xs"
      "\<forall>u. HttpsGet u \<notin> set xs" "\<forall>p. CreateWriteStream p \<notin> set xs"
    using download_step_no_get by blast
  obtain ys where ys: "effects (foldl (download_step dest) (download_step dest s ev) evs) =
      effects (download_step dest s ev) @ ys" "\<forall>u. HttpsGet u \<notin> set ys" "\<forall>p. CreateWriteStream p \<notin> set ys"
    using Cons.IH by blast
  have "effects (foldl (download_step dest) s (ev # evs)) = effects s @ (xs @ ys)"
    using xs ys by simp
  moreover have "\<forall>u. HttpsGet u \<notin> set (xs @ ys)" "\<forall>p. CreateWriteStream p \<notin> set (xs @ ys)"
    using xs ys by auto
  ultimately show ?case by blast
qed

text \<open>before the response: events of the file are not listened to\<close>

lemma download_idle:
  "\<not> listening s \<Longrightarrow> \<forall>ev \<in> set pre. ev = FileFinish \<Longrightarrow> foldl (download_step dest) s pre = s"
  by (induction pre arbitrary: s) auto

text \<open>after a response with status 200, while the promise is pending\<close>

lemma download_streaming:
  assumes "responded s" "listening s" "promise s = None"
  shows "promise (foldl (download_step dest) s evs) =
     (case dropWhile (\<lambda>ev. \<exists>c. ev = Response c) evs of
        [] \<Rightarrow> None
      | FileFinish # rest \<Rightarrow> Some (Normal ())
      | RequestError m # rest \<Rightarrow> Some (Throw (SysError m))
      | Response c # rest \<Rightarrow> None)"
  using assms
proof (induction evs arbitrary: s)
  case Nil
  then show ?case by simp
next
  case (Cons ev evs)
  show ?case
  proof (cases ev)
    case (RequestError m)
    then show ?thesis using Cons.prems
      by (simp add: download_settled reject_def)
  next
    case (Response c)
    then show ?thesis using Cons by simp
  next
    case FileFinish
    then show ?thesis using Cons.prems
      by (simp add: download_settled resolve_def)
  qed
qed

lemma download_from_start:
  assumes "post = [] \<or> hd post \<noteq> FileFinish"
  shows "promise (foldl (download_step dest)
       \<lparr>responded = False, listening = False, promise = None, effects = tr1\<rparr> post) =
     (case post of
        [] \<Rightarrow> None
      | RequestError m # rest \<Rightarrow> Some (Throw (SysError m))
      | FileFinish # rest \<Rightarrow> None
      | Response code # rest \<Rightarrow>
          if code \<noteq> 200 then Some (Throw (DownloadFailed code))
          else (case dropWhile (\<lambda>ev. \<exists>c. ev = Response c) rest of
                  [] \<Rightarrow> None
                | FileFinish # rest' \<Rightarrow> Some (Normal ())
                | RequestError m # rest' \<Rightarrow> Some (Throw (SysError m))
                | Response c # rest' \<Rightarrow> None))"
proof (cases post)
  case Nil
  then show ?thesis by simp
next
  case (Cons ev rest)
  show ?thesis
  proof (cases ev)
    case (RequestError m)
    then show ?thesis unfolding Cons
      by (simp add: download_settled reject_def)
  next
    case (Response code)
    show ?thesis
    proof (cases "code = 200")
      case True
      have "promise (foldl (download_step dest)
               \<lparr>responded = True, listening = True, promise = None, effects = tr1 @ [Pipe dest]\<rparr> rest) =
            (case dropWhile (\<lambda>ev. \<exists>c. ev = Response c) rest of
                [] \<Rightarrow> None
              | FileFinish # rest' \<Rightarrow> Some (Normal ())
              | RequestError m # rest' \<Rightarrow> Some (Throw (SysError m))
              | Response c # rest' \<Rightarrow> None)"
        by (rule download_streaming) simp_all
      then show ?thesis unfolding Cons Response using True
        by simp
    next
      case False
      then show ?thesis unfolding Cons Response
        by (simp add: download_settled reject_def)
    qed
  next
    case FileFinish
    with assms Cons show ?thesis by simp
  qed
qed

lemma download_result:
  "promise (foldl (download_step dest)
       \<lparr>responded = False, listening = False, promise = None, effects = tr1\<rparr> evs) =
     (case dropWhile (\<lambda>ev. ev = FileFinish) evs of
        [] \<Rightarrow> None
      | RequestError m # rest \<Rightarrow> Some (Throw (SysError m))
      | FileFinish # rest \<Rightarrow> None
      | Response code # rest \<Rightarrow>
          if code \<noteq> 200 then Some (Throw (DownloadFailed code))
          else (case dropWhile (\<lambda>ev. \<exists>c. ev = Response c) rest of
                  [] \<Rightarrow> None
                | FileFinish # rest' \<Rightarrow> Some (Normal ())
                | RequestError m # rest' \<Rightarrow> Some (Throw (SysError m))
                | Response c # rest' \<Rightarrow> None))"
proof -
  let ?init = "\<lparr>responded = False, listening = False, promise = None, effects = tr1\<rparr>"
  define pre where "pre = takeWhile (\<lambda>ev. ev = FileFinish) evs"
  define post where "post = dropWhile (\<lambda>ev. ev = FileFinish) evs"
  have evs: "evs = pre @ post"
    by (simp add: pre_def post_def)
  have idle: "foldl (download_step dest) ?init pre = ?init"
    by (rule download_idle) (auto simp: pre_def dest: set_takeWhileD)
  have split: "foldl (download_step dest) ?init evs = foldl (download_step dest) ?init post"
    by (simp only: evs foldl_append idle)
  have "post = [] \<or> hd post \<noteq> FileFinish"
    using hd_dropWhile [of "\<lambda>ev. ev = FileFinish" evs] by (auto simp: post_def)
  from download_from_start [OF this, of dest tr1] show ?thesis
    unfolding split post_def .
qed

lemma download_piped:
  "\<exists>xs. effects (foldl (download_step dest) s evs) = effects s @ xs \<and>
     (Pipe dest \<in> set xs \<longleftrightarrow>
        \<not> responded s \<and>
        (\<exists>rest. dropWhile (\<lambda>ev. \<forall>c. ev \<noteq> Response c) evs = Response 200 # rest))"
proof (induction evs arbitrary: s)
  case Nil
  then show ?case by simp
next
  case (Cons ev evs)
  obtain xs where xs: "effects (foldl (download_step dest) (download_step dest s ev) evs) =
        effects (download_step dest s ev) @ xs"
      "Pipe dest \<in> set xs \<longleftrightarrow>
        \<not> responded (download_step dest s ev) \<and>
        (\<exists>rest. dropWhile (\<lambda>ev. \<forall>c. ev \<noteq> Response c) evs = Response 200 # rest)"
    using Cons.IH by blast
  show ?case
  proof (cases ev)
    case (RequestError m)
    with xs show ?thesis by auto
  next
    case (Response code)
    with xs show ?thesis by (cases "responded s"; cases "code = 200") auto
  next
    case FileFinish
    show ?thesis
    proof (cases "listening s")
      case True
      with xs FileFinish have "effects (foldl (download_step dest) s (ev # evs)) =
          effects s @ (CloseFile dest # xs)"
        by simp
      moreover have "Pipe dest \<in> set (CloseFile dest # xs) \<longleftrightarrow>
        \<not> responded s \<and>
        (\<exists>rest. dropWhile (\<lambda>ev. \<forall>c. ev \<noteq> Response c) (ev # evs) = Response 200 # rest)"
        using xs FileFinish True by simp
      ultimately show ?thesis by blast
    next
      case False
      with xs FileFinish show ?thesis by auto
    qed
  qed
qed

text \<open>
  What \<open>downloadFile\<close> does, by the events it listens to. Let \<open>evs\<close> be what the request
  and the file emit, and \<open>first\<close> what is left of it from the first event that is not a
  \<open>finish\<close> of the file (before the response nothing listens to the file).
  \<open>downloadFile\<close> opens the destination and sends one request, and never a second one. Its
  promise rejects with \<open>Download failed\<close> and the status code exactly when the first such
  event is a response whose status is not 200, and then nothing is piped. An error of the
  request at that point rejects with that error. A response with status 200 pipes the body
  into the destination file; from then on the next event that is not a further response
  settles the promise: the finish of the file resolves it, an error of the request rejects
  it, and without such an event the promise stays pending.
\<close>

lemma downloadFile_outcomes:
  assumes "evs = https_events e (tr @ [CreateWriteStream dest, HttpsGet url])"
    and "first = dropWhile (\<lambda>ev. ev = FileFinish) evs"
  shows "(\<exists>rest. snd (downloadFile e url dest tr) = tr @ [CreateWriteStream dest, HttpsGet url] @ rest
            \<and> (\<forall>u. HttpsGet u \<notin> set rest))
     \<and> (\<forall>code. fst (downloadFile e url dest tr) = Some (Throw (DownloadFailed code)) \<longleftrightarrow>
            (\<exists>rest. first = Response code # rest \<and> code \<noteq> 200))
     \<and> (\<forall>m rest. first = RequestError m # rest \<longrightarrow>
            fst (downloadFile e url dest tr) = Some (Throw (SysError m)))
     \<and> (\<forall>code rest. first = Response code # rest \<and> code \<noteq> 200 \<longrightarrow>
            Pipe dest \<notin> set (new_events tr (snd (downloadFile e url dest tr))))
     \<and> (\<forall>rest. first = Response 200 # rest \<longrightarrow>
            Pipe dest \<in> set (new_events tr (snd (downloadFile e url dest tr)))
          \<and> fst (downloadFile e url dest tr) =
              (case dropWhile (\<lambda>ev. \<exists>c. ev = Response c) rest of
                 [] \<Rightarrow> None
               | FileFinish # rest' \<Rightarrow> Some (Normal ())
               | RequestError m # rest' \<Rightarrow> Some (Throw (SysError m))
               | Response c # rest' \<Rightarrow> None))"
proof -
  let ?tr1 = "tr @ [CreateWriteStream dest, HttpsGet url]"
  let ?init = "\<lparr>responded = False, listening = False, promise = None, effects = ?tr1\<rparr>"
  let ?s = "foldl (download_step dest) ?init evs"
  have res: "fst (downloadFile e url dest tr) = promise ?s"
    and eff: "snd (downloadFile e url dest tr) = effects ?s"
    using assms(1) by (simp_all add: downloadFile_def Let_def)
  note char = download_result [of dest ?tr1 evs, folded assms(2)]
  obtain xs where xs: "effects ?s = ?tr1 @ xs" "\<forall>u. HttpsGet u \<notin> set xs"
    using download_no_get [of dest ?init evs] by auto
  obtain ys where ys: "effects ?s = ?tr1 @ ys"
      "Pipe dest \<in> set ys \<longleftrightarrow>
        (\<exists>rest. dropWhile (\<lambda>ev. \<forall>c. ev \<noteq> Response c) evs = Response 200 # rest)"
    using download_piped [of dest ?init evs] by auto
  have new: "new_events tr (effects ?s) = [CreateWriteStream dest, HttpsGet url] @ ys"
    using ys(1) by (simp add: new_events_def)
  have firstresp: "dropWhile (\<lambda>ev. \<forall>c. ev \<noteq> Response c) evs = Response code # rest"
    if "first = Response code # rest" for code rest
  proof -
    define pre where "pre = takeWhile (\<lambda>ev. ev = FileFinish) evs"
    have evs: "evs = pre @ Response code # rest"
      using that assms(2) takeWhile_dropWhile_id [of "\<lambda>ev. ev = FileFinish" evs]
      by (simp add: pre_def)
    have pre: "\<forall>c. x \<noteq> Response c" if "x \<in> set pre" for x
      using that by (auto simp: pre_def dest: set_takeWhileD)
    have "dropWhile (\<lambda>ev. \<forall>c. ev \<noteq> Response c) (pre @ Response code # rest) =
        dropWhile (\<lambda>ev. \<forall>c. ev \<noteq> Response c) (Response code # rest)"
      using pre by (rule dropWhile_append2)
    then show ?thesis
      by (simp add: evs)
  qed
  have streamed: "(case xs of
                 [] \<Rightarrow> None
               | FileFinish # rest' \<Rightarrow> Some (Normal ())
               | RequestError m # rest' \<Rightarrow> Some (Throw (SysError m))
               | Response c # rest' \<Rightarrow> None) \<noteq> Some (Throw (DownloadFailed code))" for xs code
    by (simp split: list.splits net_event.splits)
  show ?thesis
  proof (intro conjI allI impI)
    show "\<exists>rest. snd (downloadFile e url dest tr) = tr @ [CreateWriteStream dest, HttpsGet url] @ rest
            \<and> (\<forall>u. HttpsGet u \<notin> set rest)"
      using xs eff by auto
  next
    fix code
    show "fst (downloadFile e url dest tr) = Some (Throw (DownloadFailed code)) \<longleftrightarrow>
            (\<exists>rest. first = Response code # rest \<and> code \<noteq> 200)"
    proof (cases first)
      case Nil
      then show ?thesis unfolding res char by simp
    next
      case (Cons ev rest)
      show ?thesis
      proof (cases ev)
        case (RequestError m)
        then show ?thesis unfolding res char Cons by simp
      next
        case (Response c)
        then show ?thesis unfolding res char Cons using streamed by auto
      next
        case FileFinish
        then show ?thesis unfolding res char Cons by simp
      qed
    qed
  next
    fix m rest
    assume "first = RequestError m # rest"
    then show "fst (downloadFile e url dest tr) = Some (Throw (SysError m))"
      unfolding res char by simp
  next
    fix code rest
    assume h: "first = Response code # rest \<and> code \<noteq> 200"
    then have "dropWhile (\<lambda>ev. \<forall>c. ev \<noteq> Response c) evs = Response code # rest"
      using firstresp by blast
    with h have "Pipe dest \<notin> set ys"
      using ys(2) by simp
    then show "Pipe dest \<notin> set (new_events tr (snd (downloadFile e url dest tr)))"
      unfolding eff new by simp
  next
    fix rest
    assume h: "first = Response 200 # rest"
    then have "dropWhile (\<lambda>ev. \<forall>c. ev \<noteq> Response c) evs = Response 200 # rest"
      using firstresp by blast
    then have "Pipe dest \<in> set ys"
      using ys(2) by simp
    then show "Pipe dest \<in> set (new_events tr (snd (downloadFile e url dest tr)))"
      unfolding eff new by simp
    from h show "fst (downloadFile e url dest tr) =
              (case dropWhile (\<lambda>ev. \<exists>c. ev = Response c) rest of
                 [] \<Rightarrow> None
               | FileFinish # rest' \<Rightarrow> Some (Normal ())
               | RequestError m # rest' \<Rightarrow> Some (Throw (SysError m))
               | Response c # rest' \<Rightarrow> None)"
      unfolding res char by simp
  qed
qed

lemma downloadFile_examples:
  "downloadFile sample_env DOWNLOAD_URL ''/srv/hytale/hytale-downloader.zip'' [] =
     (Some (Normal ()),
      [CreateWriteStream ''/srv/hytale/hytale-downloader.zip'', HttpsGet DOWNLOAD_URL,
       Pipe ''/srv/hytale/hytale-downloader.zip'', CloseFile ''/srv/hytale/hytale-downloader.zip''])
   \<and> downloadFile (sample_env\<lparr>https_events := (\<lambda>tr. [Response 404])\<rparr>) DOWNLOAD_URL
        ''/srv/hytale/hytale-downloader.zip'' [] =
     (Some (Throw (DownloadFailed 404)),
      [CreateWriteStream ''/srv/hytale/hytale-downloader.zip'', HttpsGet DOWNLOAD_URL])
   \<and> fst (downloadFile (sample_env\<lparr>https_events := (\<lambda>tr. [RequestError ''ECONNRESET''])\<rparr>) DOWNLOAD_URL
        ''/srv/hytale/hytale-downloader.zip'' []) = Some (Throw (SysError ''ECONNRESET''))"
proof -
  let ?d = "''/srv/hytale/hytale-downloader.zip''"
  let ?e2 = "sample_env\<lparr>https_events := (\<lambda>tr. [Response 404])\<rparr>"
  let ?e3 = "sample_env\<lparr>https_events := (\<lambda>tr. [RequestError ''ECONNRESET''])\<rparr>"
  have e1: "[Response 200, FileFinish] = https_events sample_env ([] @ [CreateWriteStream ?d, HttpsGet DOWNLOAD_URL])"
    by (simp add: sample_env_def)
  have f1: "[Response 200, FileFinish] = dropWhile (\<lambda>ev. ev = FileFinish) [Response 200, FileFinish]"
    by simp
  have e2: "[Response 404] = https_events ?e2 ([] @ [CreateWriteStream ?d, HttpsGet DOWNLOAD_URL])"
    by simp
  have f2: "[Response 404] = dropWhile (\<lambda>ev. ev = FileFinish) [Response 404]"
    by simp
  have e3: "[RequestError ''ECONNRESET''] = https_events ?e3 ([] @ [CreateWriteStream ?d, HttpsGet DOWNLOAD_URL])"
    by simp
  have f3: "[RequestError ''ECONNRESET''] = dropWhile (\<lambda>ev. ev = FileFinish) [RequestError ''ECONNRESET'']"
    by simp
  have "fst (downloadFile sample_env DOWNLOAD_URL ?d []) = Some (Normal ())"
    using downloadFile_outcomes [OF e1 f1] by simp
  moreover have "snd (downloadFile sample_env DOWNLOAD_URL ?d []) =
      [CreateWriteStream ?d, HttpsGet DOWNLOAD_URL, Pipe ?d, CloseFile ?d]"
    by (simp add: downloadFile_def sample_env_def resolve_def)
  moreover have "fst (downloadFile ?e2 DOWNLOAD_URL ?d []) = Some (Throw (DownloadFailed 404))"
    using downloadFile_outcomes [OF e2 f2] by simp
  moreover have "snd (downloadFile ?e2 DOWNLOAD_URL ?d []) = [CreateWriteStream ?d, HttpsGet DOWNLOAD_URL]"
    by (simp add: downloadFile_def reject_def)
  moreover have "fst (downloadFile ?e3 DOWNLOAD_URL ?d []) = Some (Throw (SysError ''ECONNRESET''))"
    using downloadFile_outcomes [OF e3 f3] by simp
  ultimately show ?thesis
    by (simp add: prod_eq_iff)
qed


text \<open>
  C6. The claim holds of the status code, of the single request and of the streaming, as
  shown above, and of the transport errors that the request reports through its
  \<open>'error'\<close> event: after a response with status 200 such an error still rejects the
  promise. But the code listens to nothing else. When the response has arrived with status
  200 and the connection is lost before the body ends, the request emits no \<open>'error'\<close> and
  the file never emits \<open>'finish'\<close>: the promise never settles, so the download does not
  fail.
\<close>

theorem C6_lost_connection:
  "downloadFile lost_connection_env DOWNLOAD_URL ''/srv/hytale/hytale-downloader.zip'' [] =
     (None,
      [CreateWriteStream ''/srv/hytale/hytale-downloader.zip'', HttpsGet DOWNLOAD_URL,
       Pipe ''/srv/hytale/hytale-downloader.zip''])
   \<and> fst (downloadFile reset_connection_env DOWNLOAD_URL ''/srv/hytale/hytale-downloader.zip'' []) =
       Some (Throw (SysError ''read ECONNRESET''))"
  by (simp add: downloadFile_def lost_connection_env_def reset_connection_env_def reject_def)

section \<open>The Java check\<close>

lemma list_all2_map_eq:
  assumes "\<And>c l. l \<in> set ls \<Longrightarrow> P c l \<longleftrightarrow> f c = l"
  shows "list_all2 P v ls \<longleftrightarrow> map f v = ls"
  using assms
proof (induction v arbitrary: ls)
  case Nil
  then show ?case by auto
next
  case (Cons c v)
  show ?case
  proof (cases ls)
    case Nil
    then show ?thesis by simp
  next
    case (Cons l ls')
    have "list_all2 P v ls' \<longleftrightarrow> map f v = ls'"
      by (rule Cons.IH) (simp add: Cons.prems Cons)
    moreover have "P c l \<longleftrightarrow> f c = l"
      by (rule Cons.prems) (simp add: Cons)
    ultimately show ?thesis
      by (simp add: Cons)
  qed
qed

lemma version_word:
  "list_all2 (\<lambda>c l. c = l \<or> c + 0x20 = l) v (ascii ''version'') \<longleftrightarrow>
   map toLowerCase v = ascii ''version''"
proof (rule list_all2_map_eq)
  fix c l :: nat
  assume "l \<in> set (ascii ''version'')"
  then have "l \<in> {118, 101, 114, 115, 105, 111, 110}"
    by (simp add: ascii_def)
  then show "(c = l \<or> c + 0x20 = l) \<longleftrightarrow> toLowerCase c = l"
    by (auto simp: toLowerCase_def)
qed

lemma not_space_quote: "\<not> js_space 0x22"
  by (simp add: js_space_def)

lemma match_here_sound:
  assumes "match_here s = Some ds"
  shows "version_at s ds"
proof -
  let ?r = "drop 7 s"
  from assms have v: "map toLowerCase (take 7 s) = ascii ''version''"
    by (simp add: match_here_def split: if_splits)
  from assms v have w: "takeWhile js_space ?r \<noteq> []"
    by (simp add: match_here_def Let_def split: if_splits)
  from assms v w obtain r' where r': "dropWhile js_space ?r = 0x22 # r'"
      and ds: "ds = takeWhile js_digit r'" "ds \<noteq> []"
    by (auto simp: match_here_def Let_def split: if_splits list.splits)
  have "s = take 7 s @ ?r" by simp
  also have "?r = takeWhile js_space ?r @ dropWhile js_space ?r" by simp
  also have "dropWhile js_space ?r = [0x22] @ ds @ dropWhile js_digit r'"
    using r' ds by simp
  finally have s: "s = take 7 s @ takeWhile js_space ?r @ [0x22] @ ds @ dropWhile js_digit r'" .
  have post: "dropWhile js_digit r' = [] \<or> \<not> js_digit (hd (dropWhile js_digit r'))"
    using hd_dropWhile [of js_digit r'] by blast
  have digits: "\<forall>c \<in> set ds. js_digit c"
    using ds by (auto dest: set_takeWhileD)
  have spaces: "\<forall>c \<in> set (takeWhile js_space ?r). js_space c"
    by (auto dest: set_takeWhileD)
  have word: "list_all2 (\<lambda>c l. c = l \<or> c + 0x20 = l) (take 7 s) (ascii ''version'')"
    using v by (simp only: version_word)
  show ?thesis
    unfolding version_at_def
    apply (rule exI [of _ "take 7 s"])
    apply (rule exI [of _ "takeWhile js_space ?r"])
    apply (rule exI [of _ "dropWhile js_digit r'"])
    apply (intro conjI)
          apply (rule s)
         apply (rule word)
        apply (rule w)
       apply (rule spaces)
      apply (rule ds(2))
     apply (rule digits)
    apply (rule post)
    done
qed

lemma match_here_complete:
  assumes "version_at s ds"
  shows "match_here s = Some ds"
proof -
  from assms obtain v w post where s: "s = v @ w @ [0x22] @ ds @ post"
    and word: "list_all2 (\<lambda>c l. c = l \<or> c + 0x20 = l) v (ascii ''version'')"
    and w: "w \<noteq> []" "\<forall>c \<in> set w. js_space c"
    and ds: "ds \<noteq> []" "\<forall>c \<in> set ds. js_digit c"
    and post: "post = [] \<or> \<not> js_digit (hd post)"
    unfolding version_at_def by blast
  have lower: "map toLowerCase v = ascii ''version''"
    using word by (simp only: version_word)
  have "length (map toLowerCase v) = length (ascii ''version'')"
    using lower by (rule arg_cong)
  then have len: "length v = 7"
    by (simp add: ascii_def)
  have tw: "takeWhile js_space (w @ [0x22] @ ds @ post) = w"
    using w(2) not_space_quote by simp
  have dw: "dropWhile js_space (w @ [0x22] @ ds @ post) = 0x22 # ds @ post"
    using w(2) not_space_quote by simp
  have td: "takeWhile js_digit (ds @ post) = ds"
    using ds(2) post by (cases post) (simp_all add: takeWhile_tail)
  show ?thesis
    unfolding s using len lower w(1) ds(1) tw dw td by (simp add: match_here_def)
qed

lemma match_here_iff: "match_here s = Some ds \<longleftrightarrow> version_at s ds"
  using match_here_sound match_here_complete by blast

lemma match_here_None: "match_here s = None \<longleftrightarrow> (\<forall>ds. \<not> version_at s ds)"
  by (metis match_here_iff not_Some_eq)

lemma match_version_iff:
  "match_version out = Some ds \<longleftrightarrow>
     (\<exists>i. version_at (drop i out) ds \<and> (\<forall>j < i. \<forall>ds'. \<not> version_at (drop j out) ds'))"
proof (induction out)
  case Nil
  have "\<not> version_at [] ds" for ds
    using match_here_iff [of "[]" ds] by (simp add: match_here_def ascii_def)
  then show ?case by simp
next
  case (Cons c cs)
  show ?case
  proof (cases "match_here (c # cs)")
    case (Some ds0)
    then have at0: "version_at (drop 0 (c # cs)) ds0"
      by (simp add: match_here_iff)
    show ?thesis
    proof
      assume "match_version (c # cs) = Some ds"
      with Some have "ds0 = ds" by simp
      with at0 have "version_at (drop 0 (c # cs)) ds \<and> (\<forall>j < 0. \<forall>ds'. \<not> version_at (drop j (c # cs)) ds')"
        by simp
      then show "\<exists>i. version_at (drop i (c # cs)) ds \<and> (\<forall>j < i. \<forall>ds'. \<not> version_at (drop j (c # cs)) ds')"
        by (rule exI)
    next
      assume "\<exists>i. version_at (drop i (c # cs)) ds \<and> (\<forall>j < i. \<forall>ds'. \<not> version_at (drop j (c # cs)) ds')"
      then obtain i where i: "version_at (drop i (c # cs)) ds"
        "\<forall>j < i. \<forall>ds'. \<not> version_at (drop j (c # cs)) ds'"
        by blast
      have "i = 0"
      proof (rule ccontr)
        assume "i \<noteq> 0"
        then have "0 < i" by simp
        with i(2) have "\<not> version_at (drop 0 (c # cs)) ds0" by blast
        with at0 show False by simp
      qed
      with i(1) have "match_here (c # cs) = Some ds"
        by (simp add: match_here_iff)
      then show "match_version (c # cs) = Some ds"
        by simp
    qed
  next
    case None
    then have no0: "\<not> version_at (c # cs) ds'" for ds'
      by (simp add: match_here_None)
    have mv: "match_version (c # cs) = match_version cs"
      using None by simp
    show ?thesis
    proof
      assume "match_version (c # cs) = Some ds"
      then have "match_version cs = Some ds"
        by (simp only: mv)
      then obtain i where i: "version_at (drop i cs) ds" "\<forall>j < i. \<forall>ds'. \<not> version_at (drop j cs) ds'"
        using Cons.IH by blast
      have "\<forall>j < Suc i. \<forall>ds'. \<not> version_at (drop j (c # cs)) ds'"
      proof (intro allI impI)
        fix j ds'
        assume "j < Suc i"
        then show "\<not> version_at (drop j (c # cs)) ds'"
          using no0 i(2) by (cases j) auto
      qed
      with i(1) have "version_at (drop (Suc i) (c # cs)) ds \<and>
          (\<forall>j < Suc i. \<forall>ds'. \<not> version_at (drop j (c # cs)) ds')"
        by simp
      then show "\<exists>i. version_at (drop i (c # cs)) ds \<and> (\<forall>j < i. \<forall>ds'. \<not> version_at (drop j (c # cs)) ds')"
        by (rule exI)
    next
      assume "\<exists>i. version_at (drop i (c # cs)) ds \<and> (\<forall>j < i. \<forall>ds'. \<not> version_at (drop j (c # cs)) ds')"
      then obtain i where i: "version_at (drop i (c # cs)) ds"
        "\<forall>j < i. \<forall>ds'. \<not> version_at (drop j (c # cs)) ds'"
        by blast
      from i(1) no0 obtain k where k: "i = Suc k"
        by (cases i) auto
      have "version_at (drop k cs) ds"
        using i(1) k by simp
      moreover have "\<forall>j < k. \<forall>ds'. \<not> version_at (drop j cs) ds'"
      proof (intro allI impI)
        fix j ds'
        assume "j < k"
        then have "Suc j < i" using k by simp
        with i(2) have "\<not> version_at (drop (Suc j) (c # cs)) ds'" by blast
        then show "\<not> version_at (drop j cs) ds'" by simp
      qed
      ultimately have "match_version cs = Some ds"
        using Cons.IH by blast
      then show "match_version (c # cs) = Some ds"
        by (simp only: mv)
    qed
  qed
qed

lemma match_version_None:
  "match_version out = None \<longleftrightarrow> (\<forall>i ds. \<not> version_at (drop i out) ds)"
proof (induction out)
  case Nil
  have "\<not> version_at [] ds" for ds
    using match_here_iff [of "[]" ds] by (simp add: match_here_def ascii_def)
  then show ?case by simp
next
  case (Cons c cs)
  show ?case
  proof (cases "match_here (c # cs)")
    case (Some ds0)
    then have "version_at (drop 0 (c # cs)) ds0"
      by (simp add: match_here_iff)
    then have "\<not> (\<forall>i ds. \<not> version_at (drop i (c # cs)) ds)"
      by blast
    with Some show ?thesis by simp
  next
    case None
    then have no0: "\<not> version_at (c # cs) ds'" for ds'
      by (simp add: match_here_None)
    have "(\<forall>i ds. \<not> version_at (drop i (c # cs)) ds) \<longleftrightarrow> (\<forall>i ds. \<not> version_at (drop i cs) ds)"
    proof
      assume h: "\<forall>i ds. \<not> version_at (drop i (c # cs)) ds"
      show "\<forall>i ds. \<not> version_at (drop i cs) ds"
      proof (intro allI)
        fix i ds
        from h have "\<not> version_at (drop (Suc i) (c # cs)) ds" by blast
        then show "\<not> version_at (drop i cs) ds" by simp
      qed
    next
      assume h: "\<forall>i ds. \<not> version_at (drop i cs) ds"
      show "\<forall>i ds. \<not> version_at (drop i (c # cs)) ds"
      proof (intro allI)
        fix i ds
        show "\<not> version_at (drop i (c # cs)) ds"
          using no0 h by (cases i) auto
      qed
    qed
    with None Cons.IH show ?thesis by simp
  qed
qed


lemma version_word_plain:
  assumes "list_all2 (\<lambda>c l. c = l \<or> c + 0x20 = l) v (ascii ''version'')"
  shows "length v = 7" and "\<forall>c \<in> set v. \<not> js_space c \<and> c \<noteq> 0x22"
proof -
  have lower: "map toLowerCase v = ascii ''version''"
    using assms by (simp only: version_word)
  have "length (map toLowerCase v) = length (ascii ''version'')"
    using lower by (rule arg_cong)
  then show "length v = 7"
    by (simp add: ascii_def)
  show "\<forall>c \<in> set v. \<not> js_space c \<and> c \<noteq> 0x22"
  proof
    fix c assume "c \<in> set v"
    then have "toLowerCase c \<in> set (map toLowerCase v)"
      by simp
    then have "toLowerCase c \<in> {118, 101, 114, 115, 105, 111, 110}"
      unfolding lower by (simp add: ascii_def)
    then show "\<not> js_space c \<and> c \<noteq> 0x22"
      by (auto simp: toLowerCase_def js_space_def split: if_splits)
  qed
qed

lemma no_match_before_first_quote:
  assumes word: "list_all2 (\<lambda>c l. c = l \<or> c + 0x20 = l) v (ascii ''version'')"
    and w: "\<forall>c \<in> set w. js_space c"
    and pre: "0x22 \<notin> set pre" "i < length pre"
  shows "\<not> version_at (drop i (pre @ v @ w @ [0x22] @ t)) ds'"
proof
  assume at: "version_at (drop i (pre @ v @ w @ [0x22] @ t)) ds'"
  define p where "p = drop i pre"
  have p: "p \<noteq> []" "0x22 \<notin> set p"
    using pre by (auto simp: p_def dest: in_set_dropD)
  have s: "drop i (pre @ v @ w @ [0x22] @ t) = (p @ v @ w) @ 0x22 # t"
    using pre(2) by (simp add: p_def)
  from at obtain v' w' post' where
    eq: "(p @ v @ w) @ 0x22 # t = (v' @ w') @ 0x22 # ds' @ post'"
    and word': "list_all2 (\<lambda>c l. c = l \<or> c + 0x20 = l) v' (ascii ''version'')"
    and w': "\<forall>c \<in> set w'. js_space c"
    unfolding s version_at_def by auto
  note v = version_word_plain [OF word]
  note v' = version_word_plain [OF word']
  have noq: "\<forall>c \<in> set (p @ v @ w). c \<noteq> 0x22"
    using p(2) v(2) w not_space_quote by auto
  have noq': "\<forall>c \<in> set (v' @ w'). c \<noteq> 0x22"
    using v'(2) w' not_space_quote by auto
  have "takeWhile (\<lambda>c. c \<noteq> 0x22) ((p @ v @ w) @ 0x22 # t) = p @ v @ w"
    using noq by (subst takeWhile_append2) auto
  moreover have "takeWhile (\<lambda>c. c \<noteq> 0x22) ((v' @ w') @ 0x22 # ds' @ post') = v' @ w'"
    using noq' by (subst takeWhile_append2) auto
  ultimately have same: "p @ v @ w = v' @ w'"
    using eq by simp
  have "drop 7 (v' @ w') = w'"
    using v'(1) by simp
  then have spaces: "\<forall>c \<in> set (drop 7 (p @ v @ w)). js_space c"
    using same w' by simp
  have "v \<noteq> []"
    using v(1) by auto
  then have vl: "v = butlast v @ [last v]"
    by simp
  have "7 \<le> length (p @ butlast v)"
    using p(1) v(1) by (cases p) simp_all
  then have "drop 7 (p @ v @ w) = drop 7 (p @ butlast v) @ [last v] @ w"
    by (subst vl) simp
  then have "last v \<in> set (drop 7 (p @ v @ w))"
    by simp
  with spaces have "js_space (last v)"
    by blast
  moreover have "last v \<in> set v"
    using \<open>v \<noteq> []\<close> by simp
  ultimately show False
    using v(2) by blast
qed

lemma Number_js_snoc: "Number_js (ds @ [c]) = 10 * Number_js ds + (c - 0x30)"
  by (simp add: Number_js_def)

lemma Number_js_positional:
  "Number_js ds = (\<Sum>i < length ds. (ds ! i - 0x30) * 10 ^ (length ds - Suc i))"
proof (induction ds rule: rev_induct)
  case Nil
  then show ?case by (simp add: Number_js_def)
next
  case (snoc c ds)
  have "(\<Sum>i < length (ds @ [c]). ((ds @ [c]) ! i - 0x30) * 10 ^ (length (ds @ [c]) - Suc i)) =
        (\<Sum>i < length ds. ((ds @ [c]) ! i - 0x30) * 10 ^ (Suc (length ds) - Suc i)) + (c - 0x30)"
    by simp
  also have "(\<Sum>i < length ds. ((ds @ [c]) ! i - 0x30) * 10 ^ (Suc (length ds) - Suc i)) =
        (\<Sum>i < length ds. 10 * ((ds ! i - 0x30) * 10 ^ (length ds - Suc i)))"
  proof (rule sum.cong)
    fix i assume "i \<in> {..<length ds}"
    then have i: "i < length ds" by simp
    then have "Suc (length ds) - Suc i = Suc (length ds - Suc i)"
      by simp
    then show "((ds @ [c]) ! i - 0x30) * 10 ^ (Suc (length ds) - Suc i) =
        10 * ((ds ! i - 0x30) * 10 ^ (length ds - Suc i))"
      using i by (simp add: nth_append)
  qed simp
  also have "\<dots> = 10 * (\<Sum>i < length ds. (ds ! i - 0x30) * 10 ^ (length ds - Suc i))"
    by (simp add: sum_distrib_left)
  finally show ?case
    by (simp add: Number_js_snoc snoc.IH)
qed

lemma trim_decompose:
  "\<exists>a b. s = a @ trim s @ b \<and> (\<forall>c \<in> set a. js_space c) \<and> (\<forall>c \<in> set b. js_space c) \<and>
     (trim s \<noteq> [] \<longrightarrow> \<not> js_space (hd (trim s)) \<and> \<not> js_space (last (trim s)))"
proof -
  define a where "a = takeWhile js_space s"
  define r where "r = dropWhile js_space s"
  define b where "b = rev (takeWhile js_space (rev r))"
  have t: "trim s = rev (dropWhile js_space (rev r))"
    by (simp add: trim_def r_def)
  have "rev (takeWhile js_space (rev r) @ dropWhile js_space (rev r)) = rev (rev r)"
    by (simp only: takeWhile_dropWhile_id)
  then have "rev (dropWhile js_space (rev r)) @ rev (takeWhile js_space (rev r)) = r"
    by (simp only: rev_append rev_rev_ident)
  then have r: "r = trim s @ b"
    by (simp only: t b_def)
  have "s = a @ r"
    by (simp add: a_def r_def)
  then have s: "s = a @ trim s @ b"
    using r by simp
  have sa: "\<forall>c \<in> set a. js_space c"
    by (auto simp: a_def dest: set_takeWhileD)
  have sb: "\<forall>c \<in> set b. js_space c"
    by (auto simp: b_def dest: set_takeWhileD)
  have ends: "\<not> js_space (hd (trim s)) \<and> \<not> js_space (last (trim s))" if ne: "trim s \<noteq> []"
  proof
    have "r \<noteq> []"
      using ne r by auto
    then have "\<not> js_space (hd r)"
      unfolding r_def using hd_dropWhile by blast
    moreover have "hd r = hd (trim s)"
      using ne r by (metis hd_append2)
    ultimately show "\<not> js_space (hd (trim s))"
      by simp
    have "dropWhile js_space (rev r) \<noteq> []"
      using ne t by auto
    then have "\<not> js_space (hd (dropWhile js_space (rev r)))"
      using hd_dropWhile by blast
    then show "\<not> js_space (last (trim s))"
      using ne t by (simp add: last_rev)
  qed
  from s sa sb ends show ?thesis
    by blast
qed


lemma checkJava_cases:
  assumes "exec_result e tr ''java -version'' = (err, stdout, stderr)"
  shows "fst (checkJava e tr) =
     (if err \<noteq> None \<and> stderr = [] then Throw JavaNotAccessible
      else (case match_version (trim (stdout @ stderr)) of
              None \<Rightarrow> Throw CannotParseJavaVersion
            | Some ds \<Rightarrow> if Number_js ds < 25 then Throw (JavaTooOld (Number_js ds)) else Normal ()))"
  using assms
  by (cases err) (simp_all add: checkJava_def execAsync_def Let_def split: option.splits)

lemma version_at_after_prefix:
  assumes "ds \<noteq> []" "\<forall>c \<in> set ds. js_digit c" "post = [] \<or> \<not> js_digit (hd post)"
  shows "version_at (drop (length pre) (pre @ ascii ''version '' @ [0x22] @ ds @ post)) ds"
proof -
  have "drop (length pre) (pre @ ascii ''version '' @ [0x22] @ ds @ post) =
      ascii ''version'' @ [0x20] @ [0x22] @ ds @ post"
    by (simp add: ascii_def)
  moreover have "list_all2 (\<lambda>c l. c = l \<or> c + 0x20 = l) (ascii ''version'') (ascii ''version'')"
    by (simp add: ascii_def)
  moreover have "\<forall>c \<in> set [0x20]. js_space c"
    by (simp add: js_space_def)
  ultimately show ?thesis
    unfolding version_at_def using assms by blast
qed

lemma leftmost_after_quote_free_prefix:
  assumes "0x22 \<notin> set pre" "j < length pre"
  shows "\<not> version_at (drop j (pre @ ascii ''version '' @ [0x22] @ t)) ds'"
proof -
  have "list_all2 (\<lambda>c l. c = l \<or> c + 0x20 = l) (ascii ''version'') (ascii ''version'')"
    by (simp add: ascii_def)
  moreover have "\<forall>c \<in> set [0x20]. js_space c"
    by (simp add: js_space_def)
  ultimately have "\<not> version_at (drop j (pre @ ascii ''version'' @ [0x20] @ [0x22] @ t)) ds'"
    using assms by (rule no_match_before_first_quote)
  then show ?thesis
    by (simp add: ascii_def)
qed

lemma js_digit_literal: "js_digit c \<longleftrightarrow> c \<in> set (ascii ''0123456789'')"
proof -
  have "(0x30 \<le> c \<and> c \<le> 0x39) \<longleftrightarrow> c \<in> {48, 49, 50, 51, 52, 53, 54, 55, 56, 57}"
    by (simp only: insert_iff empty_iff) presburger
  then show ?thesis
    by (simp add: js_digit_def ascii_def)
qed

lemma js_space_ranges:
  "js_space c \<longleftrightarrow>
     c \<in> {0x09..0x0D} \<union> {0x20, 0xA0, 0x1680, 0x2028, 0x2029, 0x202F, 0x205F, 0x3000, 0xFEFF} \<union>
         {0x2000..0x200A}"
  by (auto simp: js_space_def)


text \<open>
  C2, as the specification states it, fails in two places. An output that contains
  \<open>version "30.0.1"\<close> is not always accepted: the leftmost match counts, and when the
  query prints \<open>version "17.0.2"\<close> before it, the check throws the error for 17. And a
  version query that \<open>exec\<close> reports as failed does not always make the check fail: when
  the query has written a version of at least 25 to standard error, the check succeeds.
\<close>

theorem C2_counterexample:
  "fst (checkJava two_versions_env []) = Throw (JavaTooOld 17)
   \<and> fst (checkJava failed_query_env []) = Normal ()"
proof -
  let ?o1 = "ascii ''picked version '' @ [0x22] @ ascii ''17.0.2'' @ [0x22] @
       ascii '' over version '' @ [0x22] @ ascii ''30.0.1'' @ [0x22]"
  let ?o2 = "ascii ''openjdk version '' @ [0x22] @ ascii ''30.0.1'' @ [0x22]"
  have x1: "exec_result two_versions_env [] ''java -version'' = (None, [], ?o1)"
    by (simp add: two_versions_env_def)
  have x2: "exec_result failed_query_env [] ''java -version'' =
      (Some ''Command failed: java -version'', [], ?o2)"
    by (simp add: failed_query_env_def)
  have t1: "trim ([] @ ?o1) = ?o1"
    by (simp add: trim_def js_space_def ascii_def)
  have t2: "trim ([] @ ?o2) = ?o2"
    by (simp add: trim_def js_space_def ascii_def)
  have m1: "match_version ?o1 = Some (ascii ''17'')"
    by (simp add: match_here_def toLowerCase_def js_space_def js_digit_def ascii_def)
  have m2: "match_version ?o2 = Some (ascii ''30'')"
    by (simp add: match_here_def toLowerCase_def js_space_def js_digit_def ascii_def)
  have n: "Number_js (ascii ''17'') = 17" "Number_js (ascii ''30'') = 30"
    by (simp_all add: Number_js_def ascii_def)
  have "fst (checkJava two_versions_env []) = Throw (JavaTooOld 17)"
    unfolding checkJava_cases [OF x1] t1 m1 by (simp add: n)
  moreover have "?o2 \<noteq> []"
    by (simp add: ascii_def)
  then have "fst (checkJava failed_query_env []) = Normal ()"
    unfolding checkJava_cases [OF x2] t2 m2 by (simp add: n)
  ultimately show ?thesis ..
qed

text \<open>
  C2, amended. Let \<open>(err, stdout, stderr)\<close> be what \<open>exec\<close> reports for \<open>java -version\<close>
  and \<open>out\<close> the output searched: both streams, one after the other, without the white
  space at the two ends.
  \<^item> When \<open>exec\<close> reports an error and nothing was written to standard error, the check
    fails with \<open>Java not installed or not accessible\<close>. In every other case the output is
    parsed, whether \<open>exec\<close> reports an error or not.
  \<^item> When no place of the output matches \<open>version "<digits>\<close>, the check fails with
    \<open>Cannot parse Java version\<close>, another error than the first. Otherwise the version is
    the number that the digits of the leftmost match denote in base ten: below 25 the check
    fails with an error that carries this number, from 25 on it succeeds. It succeeds in no
    other case.
  \<^item> A match is the word \<open>version\<close> in any case, at least one white-space character, a
    double quote and the longest run of digits after it. Where \<open>version "<digits>\<close> stands
    after a text without a double quote, it is the leftmost match.
  \<^item> So an output whose leftmost match is \<open>version "30.0.1"\<close> gives 30 and is accepted, and
    one whose leftmost match is \<open>version "17.0.2"\<close> is rejected with an error that names 17.
\<close>

theorem C2_checkJava:
  assumes "exec_result e tr ''java -version'' = (err, stdout, stderr)"
    and "out = trim (stdout @ stderr)"
  shows "(\<exists>a b. stdout @ stderr = a @ out @ b \<and> (\<forall>c \<in> set a. js_space c) \<and> (\<forall>c \<in> set b. js_space c) \<and>
            (out \<noteq> [] \<longrightarrow> \<not> js_space (hd out) \<and> \<not> js_space (last out)))
     \<and> (err \<noteq> None \<and> stderr = [] \<longrightarrow> fst (checkJava e tr) = Throw JavaNotAccessible)
     \<and> (err = None \<or> stderr \<noteq> [] \<longrightarrow>
          ((\<forall>i ds. \<not> version_at (drop i out) ds) \<longrightarrow>
             fst (checkJava e tr) = Throw CannotParseJavaVersion)
        \<and> (\<forall>i ds. version_at (drop i out) ds \<and> (\<forall>j < i. \<forall>ds'. \<not> version_at (drop j out) ds') \<longrightarrow>
              (Number_js ds < 25 \<longrightarrow> fst (checkJava e tr) = Throw (JavaTooOld (Number_js ds))) \<and>
              (25 \<le> Number_js ds \<longrightarrow> fst (checkJava e tr) = Normal ())))
     \<and> (fst (checkJava e tr) = Normal () \<longleftrightarrow>
          (err = None \<or> stderr \<noteq> []) \<and>
          (\<exists>i ds. version_at (drop i out) ds \<and> (\<forall>j < i. \<forall>ds'. \<not> version_at (drop j out) ds') \<and>
             25 \<le> Number_js ds))
     \<and> (\<forall>ds. Number_js ds = (\<Sum>i < length ds. (ds ! i - 0x30) * 10 ^ (length ds - Suc i)))
     \<and> (\<forall>c. js_digit c \<longleftrightarrow> c \<in> set (ascii ''0123456789''))
     \<and> (\<forall>c. js_space c \<longleftrightarrow>
            c \<in> {0x09..0x0D} \<union> {0x20, 0xA0, 0x1680, 0x2028, 0x2029, 0x202F, 0x205F, 0x3000, 0xFEFF} \<union>
                {0x2000..0x200A})
     \<and> (\<forall>pre ds post.
          out = pre @ ascii ''version '' @ [0x22] @ ds @ post \<and> 0x22 \<notin> set pre \<and>
          ds \<noteq> [] \<and> (\<forall>c \<in> set ds. js_digit c) \<and> (post = [] \<or> \<not> js_digit (hd post)) \<and>
          (err = None \<or> stderr \<noteq> []) \<longrightarrow>
          (Number_js ds < 25 \<longrightarrow> fst (checkJava e tr) = Throw (JavaTooOld (Number_js ds))) \<and>
          (25 \<le> Number_js ds \<longrightarrow> fst (checkJava e tr) = Normal ()))
     \<and> (\<forall>pre post.
          out = pre @ ascii ''version '' @ [0x22] @ ascii ''30.0.1'' @ [0x22] @ post \<and>
          (\<forall>j < length pre. \<forall>ds'. \<not> version_at (drop j out) ds') \<and> (err = None \<or> stderr \<noteq> []) \<longrightarrow>
          Number_js (ascii ''30'') = 30 \<and> fst (checkJava e tr) = Normal ())
     \<and> (\<forall>pre post.
          out = pre @ ascii ''version '' @ [0x22] @ ascii ''17.0.2'' @ [0x22] @ post \<and>
          (\<forall>j < length pre. \<forall>ds'. \<not> version_at (drop j out) ds') \<and> (err = None \<or> stderr \<noteq> []) \<longrightarrow>
          fst (checkJava e tr) = Throw (JavaTooOld 17) \<and>
          message (JavaTooOld 17) = ''Java 17 was detected but 25+ is required'')"
proof -
  note cases = checkJava_cases [OF assms(1), folded assms(2)]
  have leftmost: "match_version out = Some ds"
    if "version_at (drop i out) ds" "\<forall>j < i. \<forall>ds'. \<not> version_at (drop j out) ds'" for i ds
    using that match_version_iff [of out ds] by blast
  have decide: "(Number_js ds < 25 \<longrightarrow> fst (checkJava e tr) = Throw (JavaTooOld (Number_js ds))) \<and>
      (25 \<le> Number_js ds \<longrightarrow> fst (checkJava e tr) = Normal ())"
    if "match_version out = Some ds" "err = None \<or> stderr \<noteq> []" for ds
    unfolding cases using that by auto
  have n30: "Number_js (ascii ''30'') = 30" and n17: "Number_js (ascii ''17'') = 17"
    by (simp_all add: Number_js_def ascii_def)
  have at30: "version_at (drop (length pre) (pre @ ascii ''version '' @ [0x22] @ ascii ''30'' @
      (ascii ''.0.1'' @ [0x22] @ post))) (ascii ''30'')" for pre post
    by (rule version_at_after_prefix) (simp_all add: ascii_def js_digit_def)
  have at17: "version_at (drop (length pre) (pre @ ascii ''version '' @ [0x22] @ ascii ''17'' @
      (ascii ''.0.2'' @ [0x22] @ post))) (ascii ''17'')" for pre post
    by (rule version_at_after_prefix) (simp_all add: ascii_def js_digit_def)
  have c1: "\<exists>a b. stdout @ stderr = a @ out @ b \<and> (\<forall>c \<in> set a. js_space c) \<and> (\<forall>c \<in> set b. js_space c) \<and>
            (out \<noteq> [] \<longrightarrow> \<not> js_space (hd out) \<and> \<not> js_space (last out))"
    unfolding assms(2) by (rule trim_decompose)
  have c2: "err \<noteq> None \<and> stderr = [] \<longrightarrow> fst (checkJava e tr) = Throw JavaNotAccessible"
    unfolding cases by simp
  have c3: "err = None \<or> stderr \<noteq> [] \<longrightarrow>
          ((\<forall>i ds. \<not> version_at (drop i out) ds) \<longrightarrow>
             fst (checkJava e tr) = Throw CannotParseJavaVersion)
        \<and> (\<forall>i ds. version_at (drop i out) ds \<and> (\<forall>j < i. \<forall>ds'. \<not> version_at (drop j out) ds') \<longrightarrow>
              (Number_js ds < 25 \<longrightarrow> fst (checkJava e tr) = Throw (JavaTooOld (Number_js ds))) \<and>
              (25 \<le> Number_js ds \<longrightarrow> fst (checkJava e tr) = Normal ()))"
  proof (intro impI conjI allI)
    assume "err = None \<or> stderr \<noteq> []" "\<forall>i ds. \<not> version_at (drop i out) ds"
    then show "fst (checkJava e tr) = Throw CannotParseJavaVersion"
      unfolding cases using match_version_None [of out] by auto
  next
    fix i ds
    assume r: "err = None \<or> stderr \<noteq> []"
      and h: "version_at (drop i out) ds \<and> (\<forall>j < i. \<forall>ds'. \<not> version_at (drop j out) ds')"
      and v: "Number_js ds < 25"
    from h have "match_version out = Some ds"
      using leftmost by blast
    from decide [OF this r] v show "fst (checkJava e tr) = Throw (JavaTooOld (Number_js ds))"
      by blast
  next
    fix i ds
    assume r: "err = None \<or> stderr \<noteq> []"
      and h: "version_at (drop i out) ds \<and> (\<forall>j < i. \<forall>ds'. \<not> version_at (drop j out) ds')"
      and v: "25 \<le> Number_js ds"
    from h have "match_version out = Some ds"
      using leftmost by blast
    from decide [OF this r] v show "fst (checkJava e tr) = Normal ()"
      by blast
  qed
  have c4: "fst (checkJava e tr) = Normal () \<longleftrightarrow>
          (err = None \<or> stderr \<noteq> []) \<and>
          (\<exists>i ds. version_at (drop i out) ds \<and> (\<forall>j < i. \<forall>ds'. \<not> version_at (drop j out) ds') \<and>
             25 \<le> Number_js ds)"
  proof
    assume ok: "fst (checkJava e tr) = Normal ()"
    then have r: "err = None \<or> stderr \<noteq> []"
      unfolding cases by (auto split: if_splits)
    from ok r obtain ds where m: "match_version out = Some ds" and v: "25 \<le> Number_js ds"
      unfolding cases by (auto split: if_splits option.splits)
    from m obtain i where "version_at (drop i out) ds \<and> (\<forall>j < i. \<forall>ds'. \<not> version_at (drop j out) ds')"
      using match_version_iff [of out ds] by blast
    with v r show "(err = None \<or> stderr \<noteq> []) \<and>
        (\<exists>i ds. version_at (drop i out) ds \<and> (\<forall>j < i. \<forall>ds'. \<not> version_at (drop j out) ds') \<and>
           25 \<le> Number_js ds)"
      by blast
  next
    assume "(err = None \<or> stderr \<noteq> []) \<and>
        (\<exists>i ds. version_at (drop i out) ds \<and> (\<forall>j < i. \<forall>ds'. \<not> version_at (drop j out) ds') \<and>
           25 \<le> Number_js ds)"
    then obtain i ds where r: "err = None \<or> stderr \<noteq> []"
      and h: "version_at (drop i out) ds" "\<forall>j < i. \<forall>ds'. \<not> version_at (drop j out) ds'"
      and v: "25 \<le> Number_js ds"
      by blast
    from leftmost [OF h] have "match_version out = Some ds" .
    from decide [OF this r] v show "fst (checkJava e tr) = Normal ()"
      by blast
  qed
  have c5: "\<forall>ds. Number_js ds = (\<Sum>i < length ds. (ds ! i - 0x30) * 10 ^ (length ds - Suc i))"
    by (intro allI Number_js_positional)
  have c6: "\<forall>c. js_digit c \<longleftrightarrow> c \<in> set (ascii ''0123456789'')"
    by (intro allI js_digit_literal)
  have c7: "\<forall>c. js_space c \<longleftrightarrow>
            c \<in> {0x09..0x0D} \<union> {0x20, 0xA0, 0x1680, 0x2028, 0x2029, 0x202F, 0x205F, 0x3000, 0xFEFF} \<union>
                {0x2000..0x200A}"
    by (intro allI js_space_ranges)
  have c8: "\<forall>pre ds post.
          out = pre @ ascii ''version '' @ [0x22] @ ds @ post \<and> 0x22 \<notin> set pre \<and>
          ds \<noteq> [] \<and> (\<forall>c \<in> set ds. js_digit c) \<and> (post = [] \<or> \<not> js_digit (hd post)) \<and>
          (err = None \<or> stderr \<noteq> []) \<longrightarrow>
          (Number_js ds < 25 \<longrightarrow> fst (checkJava e tr) = Throw (JavaTooOld (Number_js ds))) \<and>
          (25 \<le> Number_js ds \<longrightarrow> fst (checkJava e tr) = Normal ())"
  proof (intro allI impI)
    fix pre ds post
    assume h: "out = pre @ ascii ''version '' @ [0x22] @ ds @ post \<and> 0x22 \<notin> set pre \<and>
          ds \<noteq> [] \<and> (\<forall>c \<in> set ds. js_digit c) \<and> (post = [] \<or> \<not> js_digit (hd post)) \<and>
          (err = None \<or> stderr \<noteq> [])"
    then have o: "out = pre @ ascii ''version '' @ [0x22] @ ds @ post" and q: "0x22 \<notin> set pre"
      and d: "ds \<noteq> []" "\<forall>c \<in> set ds. js_digit c" "post = [] \<or> \<not> js_digit (hd post)"
      and r: "err = None \<or> stderr \<noteq> []"
      by blast+
    have "version_at (drop (length pre) out) ds"
      unfolding o using d by (rule version_at_after_prefix)
    moreover have "\<forall>j < length pre. \<forall>ds'. \<not> version_at (drop j out) ds'"
      unfolding o using q leftmost_after_quote_free_prefix by blast
    ultimately have "match_version out = Some ds"
      by (rule leftmost)
    from decide [OF this r]
    show "(Number_js ds < 25 \<longrightarrow> fst (checkJava e tr) = Throw (JavaTooOld (Number_js ds))) \<and>
          (25 \<le> Number_js ds \<longrightarrow> fst (checkJava e tr) = Normal ())" .
  qed
  have c9: "\<forall>pre post.
          out = pre @ ascii ''version '' @ [0x22] @ ascii ''30.0.1'' @ [0x22] @ post \<and>
          (\<forall>j < length pre. \<forall>ds'. \<not> version_at (drop j out) ds') \<and> (err = None \<or> stderr \<noteq> []) \<longrightarrow>
          Number_js (ascii ''30'') = 30 \<and> fst (checkJava e tr) = Normal ()"
  proof (intro allI impI)
    fix pre post
    assume h: "out = pre @ ascii ''version '' @ [0x22] @ ascii ''30.0.1'' @ [0x22] @ post \<and>
          (\<forall>j < length pre. \<forall>ds'. \<not> version_at (drop j out) ds') \<and> (err = None \<or> stderr \<noteq> [])"
    then have o: "out = pre @ ascii ''version '' @ [0x22] @ ascii ''30'' @ (ascii ''.0.1'' @ [0x22] @ post)"
      by (simp add: ascii_def)
    from h have l: "\<forall>j < length pre. \<forall>ds'. \<not> version_at (drop j out) ds'"
      and r: "err = None \<or> stderr \<noteq> []"
      by blast+
    have "version_at (drop (length pre) out) (ascii ''30'')"
      unfolding o by (rule at30)
    then have "match_version out = Some (ascii ''30'')"
      using l by (rule leftmost)
    from decide [OF this r] n30 show "Number_js (ascii ''30'') = 30 \<and> fst (checkJava e tr) = Normal ()"
      by simp
  qed
  have c10: "\<forall>pre post.
          out = pre @ ascii ''version '' @ [0x22] @ ascii ''17.0.2'' @ [0x22] @ post \<and>
          (\<forall>j < length pre. \<forall>ds'. \<not> version_at (drop j out) ds') \<and> (err = None \<or> stderr \<noteq> []) \<longrightarrow>
          fst (checkJava e tr) = Throw (JavaTooOld 17) \<and>
          message (JavaTooOld 17) = ''Java 17 was detected but 25+ is required''"
  proof (intro allI impI)
    fix pre post
    assume h: "out = pre @ ascii ''version '' @ [0x22] @ ascii ''17.0.2'' @ [0x22] @ post \<and>
          (\<forall>j < length pre. \<forall>ds'. \<not> version_at (drop j out) ds') \<and> (err = None \<or> stderr \<noteq> [])"
    then have o: "out = pre @ ascii ''version '' @ [0x22] @ ascii ''17'' @ (ascii ''.0.2'' @ [0x22] @ post)"
      by (simp add: ascii_def)
    from h have l: "\<forall>j < length pre. \<forall>ds'. \<not> version_at (drop j out) ds'"
      and r: "err = None \<or> stderr \<noteq> []"
      by blast+
    have "version_at (drop (length pre) out) (ascii ''17'')"
      unfolding o by (rule at17)
    then have "match_version out = Some (ascii ''17'')"
      using l by (rule leftmost)
    from decide [OF this r] n17 show "fst (checkJava e tr) = Throw (JavaTooOld 17) \<and>
          message (JavaTooOld 17) = ''Java 17 was detected but 25+ is required''"
      by simp
  qed
  show ?thesis
    apply (intro conjI)
             apply (rule c1)
            apply (rule c2)
           apply (rule c3)
          apply (rule c4)
         apply (rule c5)
        apply (rule c6)
       apply (rule c7)
      apply (rule c8)
     apply (rule c9)
    apply (rule c10)
    done
qed


theorem C2_checkJava_witness:
  "fst (checkJava sample_env []) = Normal ()
   \<and> fst (checkJava (sample_env\<lparr>exec_result := (\<lambda>tr cmd. (None, [],
            ascii ''java version '' @ [0x22] @ ascii ''24.0.1'' @ [0x22] @ [0x0A]))\<rparr>) []) =
       Throw (JavaTooOld 24)
   \<and> fst (checkJava (sample_env\<lparr>exec_result := (\<lambda>tr cmd. (Some ''Command failed'', [], []))\<rparr>) [])
       = Throw JavaNotAccessible
   \<and> fst (checkJava (sample_env\<lparr>exec_result := (\<lambda>tr cmd. (Some ''Command failed'', [],
            ascii ''/bin/sh: 1: java: not found'' @ [0x0A]))\<rparr>) []) = Throw CannotParseJavaVersion"
proof -
  let ?o1 = "ascii ''openjdk version '' @ [0x22] @ ascii ''30.0.1'' @ [0x22] @ ascii '' 2026-09-15''"
  let ?o2 = "ascii ''java version '' @ [0x22] @ ascii ''24.0.1'' @ [0x22] @ [0x0A]"
  let ?o4 = "ascii ''/bin/sh: 1: java: not found'' @ [0x0A]"
  let ?e2 = "sample_env\<lparr>exec_result := (\<lambda>tr cmd. (None, [], ?o2))\<rparr>"
  let ?e3 = "sample_env\<lparr>exec_result := (\<lambda>tr cmd. (Some ''Command failed'', [], []))\<rparr>"
  let ?e4 = "sample_env\<lparr>exec_result := (\<lambda>tr cmd. (Some ''Command failed'', [], ?o4))\<rparr>"
  have x1: "exec_result sample_env [] ''java -version'' = (None, [], ?o1)"
    by (simp add: sample_env_def)
  have x2: "exec_result ?e2 [] ''java -version'' = (None, [], ?o2)"
    by simp
  have x3: "exec_result ?e3 [] ''java -version'' = (Some ''Command failed'', [], [])"
    by simp
  have x4: "exec_result ?e4 [] ''java -version'' = (Some ''Command failed'', [], ?o4)"
    by simp
  have t1: "trim ([] @ ?o1) =
      ascii ''openjdk '' @ ascii ''version '' @ [0x22] @ ascii ''30'' @
        (ascii ''.0.1'' @ [0x22] @ ascii '' 2026-09-15'')"
    by (simp add: trim_def js_space_def ascii_def)
  have t2: "trim ([] @ ?o2) =
      ascii ''java '' @ ascii ''version '' @ [0x22] @ ascii ''24'' @ (ascii ''.0.1'' @ [0x22])"
    by (simp add: trim_def js_space_def ascii_def)
  have t4: "trim ([] @ ?o4) = ascii ''/bin/sh: 1: java: not found''"
    by (simp add: trim_def js_space_def ascii_def)
  have n: "Number_js (ascii ''30'') = 30" "Number_js (ascii ''24'') = 24"
    by (simp_all add: Number_js_def ascii_def)
  have "match_version (trim ([] @ ?o4)) = None"
    unfolding t4 by (simp add: match_here_def toLowerCase_def ascii_def)
  then have none: "\<forall>i ds. \<not> version_at (drop i (trim ([] @ ?o4))) ds"
    by (rule match_version_None [THEN iffD1])
  note th1 = C2_checkJava [OF x1 t1 [symmetric]]
  note q1 = th1 [THEN conjunct2, THEN conjunct2, THEN conjunct2, THEN conjunct2, THEN conjunct2,
      THEN conjunct2, THEN conjunct2, THEN conjunct1, rule_format,
      of "ascii ''openjdk ''" "ascii ''30''" "ascii ''.0.1'' @ [0x22] @ ascii '' 2026-09-15''"]
  note th2 = C2_checkJava [OF x2 t2 [symmetric]]
  note q2 = th2 [THEN conjunct2, THEN conjunct2, THEN conjunct2, THEN conjunct2, THEN conjunct2,
      THEN conjunct2, THEN conjunct2, THEN conjunct1, rule_format,
      of "ascii ''java ''" "ascii ''24''" "ascii ''.0.1'' @ [0x22]"]
  have "fst (checkJava sample_env []) = Normal ()"
    using q1 n by (simp add: ascii_def js_digit_def)
  moreover have "fst (checkJava ?e2 []) = Throw (JavaTooOld 24)"
    using q2 n by (simp add: ascii_def js_digit_def)
  moreover have "fst (checkJava ?e3 []) = Throw JavaNotAccessible"
    using C2_checkJava [OF x3 refl] by simp
  moreover have "?o4 \<noteq> []"
    by (simp add: ascii_def)
  then have "fst (checkJava ?e4 []) = Throw CannotParseJavaVersion"
    using C2_checkJava [OF x4 refl] none by simp
  ultimately show ?thesis by simp
qed

end
